theory Spec2Isabelle
  imports Complex_Main "HOL-Library.AList" "HOL-Library.Log_Nat"
begin

section \<open>The JavaScript runtime, as far as \<open>simple-server.js\<close> uses it\<close>

text \<open>
  Strings are lists of characters, taken to be ASCII: white space is the six ASCII
  white-space characters, and only the letters A to Z have a lower case. A value that may be \<open>undefined\<close> (a missing column of
  a row) is a \<open>string option\<close>, with \<open>None\<close> for \<open>undefined\<close>. A number that may be
  \<open>NaN\<close> is an \<open>int option\<close>; a \<open>Date\<close> object is its time value in milliseconds
  since the epoch, and \<open>None\<close> stands for \<open>Invalid Date\<close> where a constructor can
  produce one and for \<open>null\<close> where the program returns \<open>null\<close>.
\<close>

definition is_white :: "char \<Rightarrow> bool" where
  "is_white c \<longleftrightarrow> c \<in> set [CHR 0x09, CHR 0x0A, CHR 0x0B, CHR 0x0C, CHR 0x0D, CHR 0x20]"

definition trim :: "string \<Rightarrow> string" where
  "trim s = rev (dropWhile is_white (rev (dropWhile is_white s)))"

definition lower_char :: "char \<Rightarrow> char" where
  "lower_char c =
     (let n = (of_char c :: nat) in if 65 \<le> n \<and> n \<le> 90 then char_of (n + 32) else c)"

definition toLowerCase :: "string \<Rightarrow> string" where
  "toLowerCase s = map lower_char s"

definition is_digit :: "char \<Rightarrow> bool" where
  "is_digit c \<longleftrightarrow> c \<in> set ''0123456789''"

text \<open>The value of a character as a digit of the given radix, if it is one.\<close>

definition radix_digit :: "nat \<Rightarrow> char \<Rightarrow> nat option" where
  "radix_digit R c =
     (let n = (of_char c :: nat);
          v = (if 48 \<le> n \<and> n \<le> 57 then Some (n - 48)
               else if 97 \<le> n \<and> n \<le> 122 then Some (n - 87)
               else if 65 \<le> n \<and> n \<le> 90 then Some (n - 55)
               else None)
      in case v of None \<Rightarrow> None | Some d \<Rightarrow> if d < R then Some d else None)"

definition is_radix_digit :: "nat \<Rightarrow> char \<Rightarrow> bool" where
  "is_radix_digit R c \<longleftrightarrow> radix_digit R c \<noteq> None"

definition digits_value :: "nat \<Rightarrow> string \<Rightarrow> nat" where
  "digits_value R Z = foldl (\<lambda>acc c. acc * R + (case radix_digit R c of Some d \<Rightarrow> d | None \<Rightarrow> 0)) 0 Z"

text \<open>
  \<open>parseInt(string)\<close> with no radix argument: leading white space is skipped, a sign is
  read, a \<open>0x\<close> prefix selects radix 16, and the longest prefix of digits is the value;
  no digit at all is \<open>NaN\<close>. The result is kept as an exact integer.
\<close>

definition parseInt :: "string \<Rightarrow> int option" where
  "parseInt inputString =
     (let S = dropWhile is_white inputString;
          sign = (if take 1 S = ''-'' then - 1 else (1 :: int));
          S1 = (if take 1 S = ''+'' \<or> take 1 S = ''-'' then drop 1 S else S);
          hex = (take 2 S1 = ''0x'' \<or> take 2 S1 = ''0X'');
          R = (if hex then 16 else 10);
          S2 = (if hex then drop 2 S1 else S1);
          Z = takeWhile (is_radix_digit R) S2
      in if Z = [] then None else Some (sign * int (digits_value R Z)))"

text \<open>\<open>parseInt\<close> of a value that may be \<open>undefined\<close>: \<open>undefined\<close> is first
  converted to the string \<open>"undefined"\<close>.\<close>

definition ToString :: "string option \<Rightarrow> string" where
  "ToString v = (case v of None \<Rightarrow> ''undefined'' | Some s \<Rightarrow> s)"

definition parseInt_value :: "string option \<Rightarrow> int option" where
  "parseInt_value v = parseInt (ToString v)"

text \<open>\<open>a || b\<close> on such values: \<open>undefined\<close> and the empty string are falsy.\<close>

definition js_or :: "string option \<Rightarrow> string option \<Rightarrow> string option" where
  "js_or a b = (if a = None \<or> a = Some [] then b else a)"

text \<open>\<open>String.prototype.split\<close> with a one-character separator.\<close>

fun split_on :: "char \<Rightarrow> string \<Rightarrow> string list" where
  "split_on sep [] = [[]]"
| "split_on sep (x # xs) =
     (if x = sep then [] # split_on sep xs
      else (case split_on sep xs of p # ps \<Rightarrow> (x # p) # ps | [] \<Rightarrow> [[x]]))"

subsection \<open>Numbers\<close>

text \<open>
  The numbers of the program are binary floating-point numbers with a significand of
  53 bits, rounded to the nearest such number, to the one with an even significand
  when two are equally near. \<open>double_quotient p q\<close> is the number nearest to the
  quotient of the integers \<open>p\<close> and \<open>q > 0\<close>: with \<open>e\<close> the binary exponent of the
  quotient, its multiple of \<open>2 powi (e - 52)\<close> is rounded to an integer. The range of
  the exponent is not modelled: the quotients of the program, of differences of time
  values by 1 or by the milliseconds of a day, are far inside it. \<open>double_int n\<close> is
  the number nearest to the integer \<open>n\<close>, an integer itself.
\<close>

definition round_half_even :: "real \<Rightarrow> int" where
  "round_half_even y =
     (let f = \<lfloor>y\<rfloor>; r = y - of_int f
      in if r < 1 / 2 then f else if 1 / 2 < r then f + 1 else if even f then f else f + 1)"

definition binary_exponent :: "int \<Rightarrow> int \<Rightarrow> int" where
  "binary_exponent p q =
     (let k = bitlen p - bitlen q
      in if real_of_int p / real_of_int q < 2 powi k then k - 1 else k)"

definition double_quotient :: "int \<Rightarrow> int \<Rightarrow> real" where
  "double_quotient p q =
     (if p = 0 then 0
      else (let x = real_of_int \<bar>p\<bar> / real_of_int q;
                u = 2 powi (binary_exponent \<bar>p\<bar> q - 52)
            in of_int (sgn p) * (u * of_int (round_half_even (x / u)))))"

definition double_int :: "int \<Rightarrow> int" where
  "double_int n = \<lfloor>double_quotient n 1\<rfloor>"

subsection \<open>Dates\<close>

text \<open>The day arithmetic of the ECMAScript \<open>Date\<close> object.\<close>

definition msPerDay :: int where
  "msPerDay = 86400000"

definition DayFromYear :: "int \<Rightarrow> int" where
  "DayFromYear y = 365 * (y - 1970) + (y - 1969) div 4 - (y - 1901) div 100 + (y - 1601) div 400"

definition InLeapYear :: "int \<Rightarrow> bool" where
  "InLeapYear y \<longleftrightarrow> y mod 4 = 0 \<and> (y mod 100 \<noteq> 0 \<or> y mod 400 = 0)"

text \<open>Days before the first of month \<open>mn\<close> (0 to 11) within a year.\<close>

definition DaysBeforeMonth :: "bool \<Rightarrow> int \<Rightarrow> int" where
  "DaysBeforeMonth leap mn =
     (if mn = 0 then 0 else if mn = 1 then 31
      else [59, 90, 120, 151, 181, 212, 243, 273, 304, 334] ! nat (mn - 2) + (if leap then 1 else 0))"

definition MakeDay :: "int \<Rightarrow> int \<Rightarrow> int \<Rightarrow> int" where
  "MakeDay year month date =
     (let ym = year + month div 12;
          mn = month mod 12
      in DayFromYear ym + DaysBeforeMonth (InLeapYear ym) mn + date - 1)"

definition MakeDate :: "int \<Rightarrow> int \<Rightarrow> int" where
  "MakeDate day time = day * msPerDay + time"

definition TimeClip :: "int \<Rightarrow> int option" where
  "TimeClip t = (if \<bar>t\<bar> > 8640000000000000 then None else Some t)"

text \<open>The year of a day number: the largest \<open>y\<close> with \<open>DayFromYear y \<le> d\<close>.\<close>

definition YearFromDay :: "int \<Rightarrow> int" where
  "YearFromDay d =
     (let y = 1970 + (d * 400) div 146097
      in if d < DayFromYear y then y - 1
         else if DayFromYear (y + 1) \<le> d then y + 1
         else y)"

definition YearFromTime :: "int \<Rightarrow> int" where
  "YearFromTime t = YearFromDay (t div msPerDay)"

text \<open>
  What the program takes from its host: the general parser behind \<open>new Date(string)\<close>,
  whose result outside the ISO format is left to the implementation (\<open>None\<close> is
  \<open>Invalid Date\<close>), and the offset of local time from UTC in milliseconds.
\<close>

record runtime =
  Date_parse :: "string \<Rightarrow> int option"
  LocalTZA :: int

text \<open>\<open>new Date(year, month, day)\<close>: local midnight of the day, months counted from 0,
  years 0 to 99 taken as 1900 to 1999, out-of-range months and days carried over.\<close>

definition new_Date_ymd :: "runtime \<Rightarrow> int \<Rightarrow> int \<Rightarrow> int \<Rightarrow> int option" where
  "new_Date_ymd rt y m dt =
     (let yr = (if 0 \<le> y \<and> y \<le> 99 then 1900 + y else y);
          finalDate = MakeDate (MakeDay yr m dt) 0
      in TimeClip (finalDate - LocalTZA rt))"

text \<open>The same constructor on arguments that may be \<open>NaN\<close>.\<close>

definition new_Date_parts :: "runtime \<Rightarrow> int option \<Rightarrow> int option \<Rightarrow> int option \<Rightarrow> int option" where
  "new_Date_parts rt y m dt =
     (case (y, m, dt) of (Some y', Some m', Some dt') \<Rightarrow> new_Date_ymd rt y' m' dt' | _ \<Rightarrow> None)"

definition getFullYear :: "runtime \<Rightarrow> int \<Rightarrow> int" where
  "getFullYear rt t = YearFromTime (t + LocalTZA rt)"

section \<open>\<open>parseFlexibleDate\<close>\<close>

definition minus_one :: "int option \<Rightarrow> int option" where
  "minus_one v = map_option (\<lambda>n. n - 1) v"

text \<open>The regular expression \<open>/^\d{8}$/\<close>.\<close>

definition is_8_digits :: "string \<Rightarrow> bool" where
  "is_8_digits s \<longleftrightarrow> length s = 8 \<and> list_all is_digit s"

text \<open>The regular expressions \<open>/^\d{1,2}S\d{1,2}S\d{4}$/\<close> for a separator \<open>S\<close> that is
  not a digit: three fields of digits, of 1 or 2, 1 or 2, and 4 characters. On such a
  text the comparison \<open>getFullYear() == parts[2]\<close> of a number with a string of four
  digits compares the number with the decimal value of the string.\<close>

definition is_d_d_yyyy :: "char \<Rightarrow> string \<Rightarrow> bool" where
  "is_d_d_yyyy sep s =
     (case split_on sep s of
        [a, b, c] \<Rightarrow>
          list_all is_digit a \<and> (length a = 1 \<or> length a = 2) \<and>
          list_all is_digit b \<and> (length b = 1 \<or> length b = 2) \<and>
          list_all is_digit c \<and> length c = 4
      | _ \<Rightarrow> False)"

definition try_YYYYMMDD :: "runtime \<Rightarrow> string \<Rightarrow> int option" where
  "try_YYYYMMDD rt cleanStr =
     (if is_8_digits cleanStr then
        (let year = parseInt (take 4 cleanStr);
             month = minus_one (parseInt (take 2 (drop 4 cleanStr)));
             day = parseInt (take 2 (drop 6 cleanStr))
         in new_Date_parts rt year month day)
      else None)"

definition try_slash :: "runtime \<Rightarrow> string \<Rightarrow> int option" where
  "try_slash rt cleanStr =
     (if is_d_d_yyyy CHR ''/'' cleanStr then
        (let parts = split_on CHR ''/'' cleanStr;
             european = new_Date_parts rt (parseInt (parts ! 2)) (minus_one (parseInt (parts ! 1)))
                          (parseInt (parts ! 0));
             us = new_Date_parts rt (parseInt (parts ! 2)) (minus_one (parseInt (parts ! 0)))
                    (parseInt (parts ! 1))
         in if (case european of
                  Some t \<Rightarrow> Some (getFullYear rt t) = parseInt (parts ! 2)
                | None \<Rightarrow> False)
            then european else us)
      else None)"

definition try_dot :: "runtime \<Rightarrow> string \<Rightarrow> int option" where
  "try_dot rt cleanStr =
     (if is_d_d_yyyy CHR ''.'' cleanStr then
        (let parts = split_on CHR ''.'' cleanStr
         in new_Date_parts rt (parseInt (parts ! 2)) (minus_one (parseInt (parts ! 1)))
              (parseInt (parts ! 0)))
      else None)"

definition try_dash :: "runtime \<Rightarrow> string \<Rightarrow> int option" where
  "try_dash rt cleanStr =
     (if is_d_d_yyyy CHR ''-'' cleanStr then
        (let parts = split_on CHR ''-'' cleanStr
         in if length (parts ! 2) = 4 then
              new_Date_parts rt (parseInt (parts ! 2)) (minus_one (parseInt (parts ! 1)))
                (parseInt (parts ! 0))
            else None)
      else None)"

definition or_else :: "'a option \<Rightarrow> 'a option \<Rightarrow> 'a option" where
  "or_else a b = (case a of Some x \<Rightarrow> Some x | None \<Rightarrow> b)"

text \<open>The result is a valid date, or \<open>None\<close> for the \<open>null\<close> that the function returns both
  for an absent date and for a text it cannot parse.\<close>

definition parseFlexibleDate :: "runtime \<Rightarrow> string option \<Rightarrow> int option" where
  "parseFlexibleDate rt v =
     (case v of
        None \<Rightarrow> None
      | Some dateStr \<Rightarrow>
          if dateStr = [] \<or> toLowerCase dateStr = ''null'' \<or> trim dateStr = [] then None
          else (case Date_parse rt dateStr of
                  Some t \<Rightarrow> Some t
                | None \<Rightarrow>
                    (let cleanStr = trim dateStr
                     in or_else (try_YYYYMMDD rt cleanStr)
                         (or_else (try_slash rt cleanStr)
                           (or_else (try_dot rt cleanStr) (try_dash rt cleanStr))))))"


section \<open>\<open>parseCSVData\<close>\<close>

text \<open>The decimal text of a number that is an integer, as a template literal prints it.\<close>

definition digit_char :: "nat \<Rightarrow> char" where
  "digit_char n = ''0123456789'' ! n"

function string_of_nat :: "nat \<Rightarrow> string" where
  "string_of_nat n =
     (if n < 10 then [digit_char n] else string_of_nat (n div 10) @ [digit_char (n mod 10)])"
  by pat_completeness auto
termination
  by (relation "measure id") auto

declare string_of_nat.simps [simp del]

definition string_of_int :: "int \<Rightarrow> string" where
  "string_of_int i = (if i < 0 then CHR ''-'' # string_of_nat (nat (- i)) else string_of_nat (nat i))"

text \<open>One validated row: \<open>{ empId, projectId, dateFrom, dateTo }\<close>, with \<open>dateTo\<close> either a
  date or \<open>null\<close>.\<close>

record EmployeeProject =
  empId :: int
  projectId :: int
  dateFrom :: int
  dateTo :: "int option"

text \<open>
  A row of the tokenized table maps a column name to its text; a column that the table
  does not have reads as \<open>undefined\<close>. The state of the loop over the rows is the pair of
  the arrays \<open>records\<close> and \<open>errors\<close>. No statement of the body of the loop can throw,
  so its \<open>catch\<close> branch is never taken; a \<open>return\<close> ends the work on one row.
\<close>

type_synonym row = "string \<Rightarrow> string option"

type_synonym parse_state = "EmployeeProject list \<times> string list"

definition row_label :: "nat \<Rightarrow> string" where
  "row_label index = ''Row '' @ string_of_nat (index + 1) @ '': ''"

definition parse_row :: "runtime \<Rightarrow> nat \<Rightarrow> row \<Rightarrow> parse_state \<Rightarrow> parse_state" where
  "parse_row rt index row st =
     (let emp = parseInt_value (js_or (js_or (row ''EmpID'') (row ''empId'')) (row ''EmployeeID''));
          proj =
            parseInt_value (js_or (js_or (row ''ProjectID'') (row ''projectId'')) (row ''ProjectId''));
          dateFromStr = js_or (js_or (row ''DateFrom'') (row ''dateFrom'')) (row ''StartDate'');
          dateToStr = js_or (js_or (row ''DateTo'') (row ''dateTo'')) (row ''EndDate'')
      in case (emp, proj) of
           (Some e, Some p) \<Rightarrow>
             (case parseFlexibleDate rt dateFromStr of
                None \<Rightarrow>
                  (fst st,
                   snd st @ [row_label index @ ''Invalid date format for DateFrom: '' @
                             [CHR 0x22] @ ToString dateFromStr @ [CHR 0x22]])
              | Some d_from \<Rightarrow>
                  (let d_to = parseFlexibleDate rt dateToStr
                   in (fst st @ [\<lparr>empId = e, projectId = p, dateFrom = d_from, dateTo = d_to\<rparr>],
                       snd st)))
         | _ \<Rightarrow> (fst st, snd st @ [row_label index @ ''Invalid employee ID or project ID'']))"

fun forEach_row :: "runtime \<Rightarrow> nat \<Rightarrow> row list \<Rightarrow> parse_state \<Rightarrow> parse_state" where
  "forEach_row rt index [] st = st"
| "forEach_row rt index (row # rows) st = forEach_row rt (Suc index) rows (parse_row rt index row st)"

text \<open>The two arrays when the loop has run over every row.\<close>

definition parse_rows :: "runtime \<Rightarrow> row list \<Rightarrow> parse_state" where
  "parse_rows rt data = forEach_row rt 0 data ([], [])"

text \<open>What the promise resolves to: \<open>resolve(records)\<close>. The array \<open>errors\<close> is written
  to the console and dropped.\<close>

definition parseCSVData :: "runtime \<Rightarrow> row list \<Rightarrow> EmployeeProject list" where
  "parseCSVData rt data = fst (parse_rows rt data)"

section \<open>\<open>calculateOverlap\<close> and \<open>analyzeEmployees\<close>\<close>

text \<open>
  Every \<open>new Date()\<close> reads the clock of the host. The clock is a function from the
  number of reads made so far to the time read, and the number of reads is threaded
  through the computation.
\<close>

type_synonym clock = "nat \<Rightarrow> int"

text \<open>\<open>end || new Date()\<close>: the clock is read only when the end is \<open>null\<close>.\<close>

definition or_now :: "clock \<Rightarrow> int option \<Rightarrow> nat \<Rightarrow> int \<times> nat" where
  "or_now clk e n = (case e of Some t \<Rightarrow> (t, n) | None \<Rightarrow> (clk n, Suc n))"

text \<open>
  A record holds valid dates: their time values are integers of milliseconds of
  magnitude at most 8640000000000000, which the numbers of the program hold exactly,
  and so are the reads of the clock. The difference of two time values, its quotient
  by the milliseconds of a day and the sum with 1 are numbers of the program, each
  rounded; \<open>Math.ceil\<close> is the ceiling and is exact.
\<close>

definition calculateOverlap ::
  "clock \<Rightarrow> int \<Rightarrow> int option \<Rightarrow> int \<Rightarrow> int option \<Rightarrow> nat \<Rightarrow> int \<times> nat" where
  "calculateOverlap clk start1 end1 start2 end2 n =
     (let (actualEnd1, n1) = or_now clk end1 n;
          (actualEnd2, n2) = or_now clk end2 n1;
          overlapStart = max start1 start2;
          overlapEnd = min actualEnd1 actualEnd2
      in if overlapStart \<le> overlapEnd
         then (double_int
                 (\<lceil>double_quotient (double_int (overlapEnd - overlapStart))
                     (1000 * 60 * 60 * 24)\<rceil> + 1), n2)
         else (0, n2))"

record CommonProject =
  cp_projectId :: int
  overlapDays :: int
  cp_dateFrom :: int
  cp_dateTo :: int

record EmployeePair =
  emp1 :: int
  emp2 :: int
  totalDays :: int
  commonProjects :: "CommonProject list"

record Summary =
  totalRecords :: nat
  uniqueEmployees :: nat
  uniqueProjects :: nat
  employeePairs :: nat

record AnalysisResult =
  topPair :: string
  allPairs :: "EmployeePair list"
  summary :: Summary
  processedData :: "EmployeeProject list"
  errors :: "string list"

text \<open>
  A \<open>Map\<close> keeps its keys in the order of their first insertion: an association list,
  where \<open>AList.update\<close> replaces the value of a present key in place and appends an
  absent one.
\<close>

type_synonym pair_map = "(string \<times> EmployeePair) list"

type_synonym project_groups = "(int \<times> EmployeeProject list) list"

definition group_record :: "project_groups \<Rightarrow> EmployeeProject \<Rightarrow> project_groups" where
  "group_record projectGroups r =
     (let groups1 = (if map_of projectGroups (projectId r) = None
                     then AList.update (projectId r) [] projectGroups else projectGroups);
          employees = (case map_of groups1 (projectId r) of Some es \<Rightarrow> es | None \<Rightarrow> [])
      in AList.update (projectId r) (employees @ [r]) groups1)"

definition pairKey_of :: "int \<Rightarrow> int \<Rightarrow> string" where
  "pairKey_of a b = string_of_int (min a b) @ ''-'' @ string_of_int (max a b)"

text \<open>The body of the inner loop, for the records \<open>employees[i]\<close> and \<open>employees[j]\<close>. The
  state is the number of clock reads so far and \<open>pairMap\<close>. The days of an aggregate are
  summed as integers, which is what the numbers of the program do for sums below
  \<open>2 ^ 53\<close>.\<close>

definition pair_step ::
  "clock \<Rightarrow> int \<Rightarrow> EmployeeProject \<Rightarrow> EmployeeProject \<Rightarrow> nat \<times> pair_map \<Rightarrow> nat \<times> pair_map" where
  "pair_step clk pid e1 e2 st =
     (let (overlap, n1) =
            calculateOverlap clk (dateFrom e1) (dateTo e1) (dateFrom e2) (dateTo e2) (fst st);
          pairMap = snd st
      in if overlap > 0 then
           (let pairKey = pairKey_of (empId e1) (empId e2);
                pairMap1 =
                  (if map_of pairMap pairKey = None
                   then AList.update pairKey
                          \<lparr>emp1 = min (empId e1) (empId e2), emp2 = max (empId e1) (empId e2),
                           totalDays = 0, commonProjects = []\<rparr> pairMap
                   else pairMap);
                pair = (case map_of pairMap1 pairKey of
                          Some p \<Rightarrow> p
                        | None \<Rightarrow> \<lparr>emp1 = min (empId e1) (empId e2), emp2 = max (empId e1) (empId e2),
                                   totalDays = 0, commonProjects = []\<rparr>);
                pair1 = pair\<lparr>totalDays := totalDays pair + overlap\<rparr>;
                overlapStart = max (dateFrom e1) (dateFrom e2);
                (t1, n2) = or_now clk (dateTo e1) n1;
                (t2, n3) = or_now clk (dateTo e2) n2;
                overlapEnd = min t1 t2;
                pair2 = pair1\<lparr>commonProjects := commonProjects pair1 @
                          [\<lparr>cp_projectId = pid, overlapDays = overlap,
                            cp_dateFrom = overlapStart, cp_dateTo = overlapEnd\<rparr>]\<rparr>
            in (n3, AList.update pairKey pair2 pairMap1))
         else (n1, pairMap))"

text \<open>\<open>for (j = i + 1; ...)\<close> over the records after \<open>employees[i]\<close>, and
  \<open>for (i = 0; ...)\<close> over the group.\<close>

fun inner_loop ::
  "clock \<Rightarrow> int \<Rightarrow> EmployeeProject \<Rightarrow> EmployeeProject list \<Rightarrow> nat \<times> pair_map \<Rightarrow> nat \<times> pair_map" where
  "inner_loop clk pid e1 [] st = st"
| "inner_loop clk pid e1 (e2 # rest) st = inner_loop clk pid e1 rest (pair_step clk pid e1 e2 st)"

fun outer_loop ::
  "clock \<Rightarrow> int \<Rightarrow> EmployeeProject list \<Rightarrow> nat \<times> pair_map \<Rightarrow> nat \<times> pair_map" where
  "outer_loop clk pid [] st = st"
| "outer_loop clk pid (e1 # rest) st = outer_loop clk pid rest (inner_loop clk pid e1 rest st)"

fun forEach_group :: "clock \<Rightarrow> project_groups \<Rightarrow> nat \<times> pair_map \<Rightarrow> nat \<times> pair_map" where
  "forEach_group clk [] st = st"
| "forEach_group clk ((pid, employees) # groups) st =
     forEach_group clk groups (outer_loop clk pid employees st)"

definition find_pairs :: "clock \<Rightarrow> EmployeeProject list \<Rightarrow> pair_map" where
  "find_pairs clk data = snd (forEach_group clk (foldl group_record [] data) (0, []))"

text \<open>\<open>sort((a, b) => b.totalDays - a.totalDays)\<close>: a stable sort by descending total;
  aggregates of equal total keep the order in which their keys entered the map.\<close>

definition sort_pairs :: "EmployeePair list \<Rightarrow> EmployeePair list" where
  "sort_pairs ps = sort_key (\<lambda>p. - totalDays p) ps"

definition headline :: "EmployeePair list \<Rightarrow> string" where
  "headline ps =
     (case ps of
        p # _ \<Rightarrow> ''Employees '' @ string_of_int (emp1 p) @ '' and '' @ string_of_int (emp2 p) @
                 '' worked together for '' @ string_of_int (totalDays p) @ '' days''
      | [] \<Rightarrow> ''No employee pairs found that worked together'')"

definition analyzeEmployees :: "clock \<Rightarrow> EmployeeProject list \<Rightarrow> AnalysisResult" where
  "analyzeEmployees clk data =
     (let allPairs = sort_pairs (map snd (find_pairs clk data))
      in \<lparr>topPair = headline allPairs,
          allPairs = allPairs,
          summary = \<lparr>totalRecords = length data,
                     uniqueEmployees = length (remdups (map empId data)),
                     uniqueProjects = length (remdups (map projectId data)),
                     employeePairs = length allPairs\<rparr>,
          processedData = data,
          errors = []\<rparr>)"

text \<open>The route \<open>/api/csv/analyze-sample\<close>: the records of the parser go to the analysis.\<close>

definition analyze_rows :: "runtime \<Rightarrow> clock \<Rightarrow> row list \<Rightarrow> AnalysisResult" where
  "analyze_rows rt clk data = analyzeEmployees clk (parseCSVData rt data)"


section \<open>The analysis with one captured moment\<close>

text \<open>
  The aggregator as the specification words it: the moment that stands for the end of
  an ongoing assignment is one value, given once. The effective end of a record is its
  end date if present, else that moment; the overlap of two records is the inclusive
  number of days between the later start and the earlier effective end; every pair of
  records of a group with an overlap adds its days and one detail entry to the
  aggregate of its pair of employees. The two aggregators differ in the clock only:
  the inclusive number of days, the ceiling of the distance in days plus one, is
  computed in the numbers of the program in both.
\<close>

definition inclusive_days :: "int \<Rightarrow> int \<Rightarrow> int" where
  "inclusive_days s e = double_int (\<lceil>double_quotient (double_int (e - s)) 86400000\<rceil> + 1)"




text \<open>Every unordered pair of distinct positions of a list, in the order of the loops.\<close>

fun pairs_of :: "'a list \<Rightarrow> ('a \<times> 'a) list" where
  "pairs_of [] = []"
| "pairs_of (x # xs) = map (Pair x) xs @ pairs_of xs"



text \<open>A clock that stands still, and the number of times one run reads the clock.\<close>

definition fixed_clock :: "int \<Rightarrow> clock" where
  "fixed_clock t = (\<lambda>n. t)"


section \<open>Rejected rows\<close>

text \<open>The three columns of a row that decide whether it is kept, and the reason given
  when it is not.\<close>

definition row_empId :: "row \<Rightarrow> int option" where
  "row_empId row = parseInt_value (js_or (js_or (row ''EmpID'') (row ''empId'')) (row ''EmployeeID''))"

definition row_projectId :: "row \<Rightarrow> int option" where
  "row_projectId row =
     parseInt_value (js_or (js_or (row ''ProjectID'') (row ''projectId'')) (row ''ProjectId''))"

definition row_dateFrom :: "row \<Rightarrow> string option" where
  "row_dateFrom row = js_or (js_or (row ''DateFrom'') (row ''dateFrom'')) (row ''StartDate'')"

definition row_dateTo :: "row \<Rightarrow> string option" where
  "row_dateTo row = js_or (js_or (row ''DateTo'') (row ''dateTo'')) (row ''EndDate'')"

definition rejected :: "runtime \<Rightarrow> row \<Rightarrow> bool" where
  "rejected rt row \<longleftrightarrow>
     row_empId row = None \<or> row_projectId row = None \<or>
     parseFlexibleDate rt (row_dateFrom row) = None"

definition reason :: "row \<Rightarrow> string" where
  "reason row =
     (if row_empId row = None \<or> row_projectId row = None then ''Invalid employee ID or project ID''
      else ''Invalid date format for DateFrom: '' @ [CHR 0x22] @ ToString (row_dateFrom row) @ [CHR 0x22])"

section \<open>A host and the sample table\<close>

text \<open>
  A host for the examples. Its general parser accepts the date-only ISO form
  \<open>YYYY-MM-DD\<close> of a calendar day, as midnight UTC, and rejects every other text; its
  local time is UTC.
\<close>

definition DaysInMonth :: "int \<Rightarrow> int \<Rightarrow> int" where
  "DaysInMonth y mn =
     [31, if InLeapYear y then 29 else 28, 31, 30, 31, 30, 31, 31, 30, 31, 30, 31] ! nat mn"

definition iso_date_parse :: "string \<Rightarrow> int option" where
  "iso_date_parse s =
     (case split_on CHR ''-'' s of
        [y, m, d] \<Rightarrow>
          if list_all is_digit y \<and> length y = 4 \<and> list_all is_digit m \<and> length m = 2 \<and>
             list_all is_digit d \<and> length d = 2
          then
            (let yy = int (digits_value 10 y); mm = int (digits_value 10 m);
                 dd = int (digits_value 10 d)
             in if 1 \<le> mm \<and> mm \<le> 12 \<and> 1 \<le> dd \<and> dd \<le> DaysInMonth yy (mm - 1)
                then Some (MakeDate (MakeDay yy (mm - 1) dd) 0) else None)
          else None
      | _ \<Rightarrow> None)"

definition iso_host :: runtime where
  "iso_host = \<lparr>Date_parse = iso_date_parse, LocalTZA = 0\<rparr>"

text \<open>The same host with a local time five hours behind UTC.\<close>

definition west_host :: runtime where
  "west_host = \<lparr>Date_parse = iso_date_parse, LocalTZA = - 18000000\<rparr>"

text \<open>A row of the four columns of the sample, and the rows of \<open>SAMPLE_CSV\<close>.\<close>

definition csv_row :: "string \<Rightarrow> string \<Rightarrow> string \<Rightarrow> string \<Rightarrow> row" where
  "csv_row e p f t =
     map_of [(''EmpID'', e), (''ProjectID'', p), (''DateFrom'', f), (''DateTo'', t)]"

definition SAMPLE_CSV :: "row list" where
  "SAMPLE_CSV =
     [csv_row ''143'' ''12'' ''2013-11-01'' ''2014-01-05'',
      csv_row ''218'' ''10'' ''2012-05-16'' ''NULL'',
      csv_row ''218'' ''10'' ''2012-05-16'' ''2012-09-05'',
      csv_row ''143'' ''10'' ''2009-01-01'' ''2011-04-27'',
      csv_row ''143'' ''11'' ''2014-01-05'' ''2014-11-09'',
      csv_row ''218'' ''12'' ''2014-11-09'' ''2015-01-05'',
      csv_row ''143'' ''10'' ''2012-09-05'' ''2013-11-01'',
      csv_row ''218'' ''11'' ''2014-01-05'' ''2014-11-09'']"

text \<open>
  A clock that advances by one millisecond at every read and passes the end of day 100
  after its first read, and two ongoing assignments to one project that begin at the
  epoch.
\<close>

definition ticking_clock :: clock where
  "ticking_clock n = 8639999999 + int n"

definition two_ongoing :: "EmployeeProject list" where
  "two_ongoing =
     [\<lparr>empId = 1, projectId = 10, dateFrom = 0, dateTo = None\<rparr>,
      \<lparr>empId = 2, projectId = 10, dateFrom = 0, dateTo = None\<rparr>]"

text \<open>The second and the third record of the sample: one employee twice on project 10,
  from the same day, once ongoing and once until 5 September 2012.\<close>

definition two_stints :: "EmployeeProject list" where
  "two_stints =
     [\<lparr>empId = 218, projectId = 10, dateFrom = 1337126400000, dateTo = None\<rparr>,
      \<lparr>empId = 218, projectId = 10, dateFrom = 1337126400000, dateTo = Some 1346803200000\<rparr>]"

text \<open>The eighth and the fifth record of the sample: two employees on project 11 for
  the same days.\<close>

definition two_colleagues :: "EmployeeProject list" where
  "two_colleagues =
     [\<lparr>empId = 218, projectId = 11, dateFrom = 1388880000000, dateTo = Some 1415491200000\<rparr>,
      \<lparr>empId = 143, projectId = 11, dateFrom = 1388880000000, dateTo = Some 1415491200000\<rparr>]"


section \<open>Facts about the runtime\<close>

subsection \<open>The numbers of the program\<close>

lemma round_half_even_error: "\<bar>real_of_int (round_half_even y) - y\<bar> \<le> 1 / 2"
proof -
  have "real_of_int \<lfloor>y\<rfloor> \<le> y" "y < real_of_int \<lfloor>y\<rfloor> + 1"
    by linarith+
  then show ?thesis
    by (auto simp: round_half_even_def Let_def)
qed

lemma round_half_even_of_int: "round_half_even (of_int n) = n"
  by (simp add: round_half_even_def)

lemma round_half_even_le: "y \<le> of_int N \<Longrightarrow> round_half_even y \<le> N"
proof -
  assume a: "y \<le> of_int N"
  then have f: "\<lfloor>y\<rfloor> \<le> N"
    by (simp add: floor_le_iff)
  show ?thesis
  proof (cases "\<lfloor>y\<rfloor> = N")
    case True
    then have "y = of_int N"
      using a by (metis of_int_floor_le order_antisym)
    then show ?thesis
      by (simp add: round_half_even_of_int)
  next
    case False
    with f have "\<lfloor>y\<rfloor> + 1 \<le> N"
      by simp
    then show ?thesis
      by (auto simp: round_half_even_def Let_def)
  qed
qed

lemma round_half_even_ge: "of_int N \<le> y \<Longrightarrow> N \<le> round_half_even y"
proof -
  assume "of_int N \<le> y"
  then have "N \<le> \<lfloor>y\<rfloor>"
    by (simp add: le_floor_iff)
  then show ?thesis
    by (auto simp: round_half_even_def Let_def)
qed

lemma pow2_diff: "(2::real) powi (a - b) = 2 powi a / 2 powi b"
  by (simp add: power_int_diff)

lemma binary_exponent_le:
  assumes "0 < p" and "0 < q"
  shows "2 powi (binary_exponent p q) \<le> real_of_int p / real_of_int q"
proof -
  define k where "k = bitlen p - bitlen q"
  show ?thesis
  proof (cases "real_of_int p / real_of_int q < 2 powi k")
    case False
    then show ?thesis
      by (simp add: binary_exponent_def k_def)
  next
    case True
    have p: "2 ^ nat (bitlen p - 1) \<le> p"
      using bitlen_bounds [OF assms(1)] by simp
    have q: "q < 2 ^ nat (bitlen q)"
      using bitlen_bounds [OF assms(2)] by simp
    have bp: "1 \<le> bitlen p"
      using assms(1) by (simp add: bitlen_alt_def)
    have "k - 1 = (bitlen p - 1) - bitlen q"
      by (simp add: k_def)
    then have "(2::real) powi (k - 1) = 2 powi (bitlen p - 1) / 2 powi (bitlen q)"
      by (simp only: pow2_diff)
    also have "\<dots> = 2 ^ nat (bitlen p - 1) / 2 ^ nat (bitlen q)"
      using bp bitlen_nonneg [of q] by (simp add: power_int_nonneg_exp)
    also have "\<dots> \<le> real_of_int p / 2 ^ nat (bitlen q)"
    proof -
      have "(2::real) ^ nat (bitlen p - 1) \<le> real_of_int p"
        using p by (metis of_int_le_iff of_int_numeral of_int_power)
      then show ?thesis
        by (simp add: divide_right_mono)
    qed
    also have "\<dots> \<le> real_of_int p / real_of_int q"
    proof -
      have "real_of_int q \<le> 2 ^ nat (bitlen q)"
        using q by (metis less_imp_le of_int_le_iff of_int_numeral of_int_power)
      then show ?thesis
        using assms by (simp add: frac_le)
    qed
    finally show ?thesis
      using True by (simp add: binary_exponent_def k_def)
  qed
qed

lemma binary_exponent_gt:
  assumes "0 < p" and "0 < q"
  shows "real_of_int p / real_of_int q < 2 powi (binary_exponent p q + 1)"
proof -
  define k where "k = bitlen p - bitlen q"
  show ?thesis
  proof (cases "real_of_int p / real_of_int q < 2 powi k")
    case True
    then show ?thesis
      by (simp add: binary_exponent_def k_def)
  next
    case False
    have p: "p < 2 ^ nat (bitlen p)"
      using bitlen_bounds [OF assms(1)] by simp
    have q: "2 ^ nat (bitlen q - 1) \<le> q"
      using bitlen_bounds [OF assms(2)] by simp
    have bq: "1 \<le> bitlen q"
      using assms(2) by (simp add: bitlen_alt_def)
    have "real_of_int p / real_of_int q < 2 ^ nat (bitlen p) / real_of_int q"
    proof -
      have "real_of_int p < 2 ^ nat (bitlen p)"
        using p by (metis of_int_less_iff of_int_numeral of_int_power)
      then show ?thesis
        using assms(2) by (simp add: divide_strict_right_mono)
    qed
    also have "\<dots> \<le> 2 ^ nat (bitlen p) / 2 ^ nat (bitlen q - 1)"
    proof -
      have "(2::real) ^ nat (bitlen q - 1) \<le> real_of_int q"
        using q by (metis of_int_le_iff of_int_numeral of_int_power)
      then show ?thesis
        by (simp add: frac_le)
    qed
    also have "\<dots> = 2 powi (bitlen p) / 2 powi (bitlen q - 1)"
      using bq bitlen_nonneg [of p] by (simp add: power_int_nonneg_exp)
    also have "\<dots> = (2::real) powi (bitlen p - (bitlen q - 1))"
      by (simp only: pow2_diff)
    also have "\<dots> = (2::real) powi (k + 1)"
      by (simp add: k_def algebra_simps)
    finally show ?thesis
      using False by (simp add: binary_exponent_def k_def)
  qed
qed



text \<open>An integer of at most 53 bits is a double.\<close>

lemma double_quotient_of_int:
  assumes "0 \<le> n" and "n \<le> 2 ^ 53"
  shows "double_quotient n 1 = real_of_int n"
proof (cases "n = 0")
  case True
  then show ?thesis by (simp add: double_quotient_def)
next
  case False
  then have pos: "0 < n"
    using assms(1) by simp
  define e where "e = binary_exponent n 1"
  define u :: real where "u = 2 powi (e - 52)"
  have u: "0 < u"
    by (simp add: u_def)
  have low: "2 powi e \<le> real_of_int n"
    using binary_exponent_le [OF pos, of 1] by (simp add: e_def)
  have "real_of_int n \<le> 2 powi 53"
    using assms(2) by (metis of_int_le_iff of_int_numeral of_int_power power_int_numeral)
  with low have "(2::real) powi e \<le> 2 powi 53"
    by linarith
  then have e53: "e \<le> 53"
    by (rule power_int_le_imp_le_exp [rotated]) simp_all
  have "\<exists>z. real_of_int n / u = real_of_int z"
  proof (cases "e \<le> 52")
    case True
    have "real_of_int n / u = real_of_int n * 2 powi (52 - e)"
      by (simp add: u_def pow2_diff [of e 52] pow2_diff [of 52 e])
    also have "\<dots> = real_of_int n * 2 ^ nat (52 - e)"
      using True by (simp add: power_int_nonneg_exp)
    also have "\<dots> = real_of_int (n * 2 ^ nat (52 - e))"
      by simp
    finally show ?thesis
      by blast
  next
    case False
    with e53 have e: "e = 53"
      by simp
    with low have "2 ^ 53 \<le> real_of_int n"
      by simp
    then have "(2::int) ^ 53 \<le> n"
      by (metis of_int_le_iff of_int_numeral of_int_power)
    with assms(2) have n: "n = 2 ^ 53"
      by simp
    have "real_of_int n / u = real_of_int (2 ^ 52)"
      by (simp add: u_def e n)
    then show ?thesis
      by blast
  qed
  then obtain z where z: "real_of_int n / u = real_of_int z"
    by blast
  have "u * real_of_int (round_half_even (real_of_int n / u)) = u * (real_of_int n / u)"
    by (simp add: z round_half_even_of_int)
  also have "\<dots> = real_of_int n"
    using u by simp
  finally show ?thesis
    using pos by (simp add: double_quotient_def Let_def u_def e_def)
qed

lemma double_int_exact: "0 \<le> n \<Longrightarrow> n \<le> 2 ^ 53 \<Longrightarrow> double_int n = n"
  by (simp add: double_int_def double_quotient_of_int)

text \<open>The quotient of an integer of at most 53 bits by the milliseconds of a day is
  rounded by less than the least fraction of a day that such a quotient can have, so
  its ceiling is the ceiling of the exact quotient.\<close>

lemma ceiling_double_quotient_day:
  assumes "0 \<le> x" and "x \<le> 2 ^ 53"
  shows "\<lceil>double_quotient x 86400000\<rceil> = \<lceil>real_of_int x / 86400000\<rceil>"
proof (cases "x = 0")
  case True
  then show ?thesis by (simp add: double_quotient_def)
next
  case False
  then have pos: "0 < x"
    using assms(1) by simp
  define q :: real where "q = real_of_int x / 86400000"
  define e where "e = binary_exponent x 86400000"
  define j where "j = nat (52 - e)"
  define r where "r = round_half_even (q * 2 ^ j)"
  define D :: real where "D = real_of_int r / 2 ^ j"
  have low: "2 powi e \<le> q"
    using binary_exponent_le [OF pos, of 86400000] by (simp add: e_def q_def)
  have "real_of_int x \<le> 2 ^ 53"
    using assms(2) by (metis of_int_le_iff of_int_numeral of_int_power)
  then have "q < 2 powi 27"
    by (simp add: q_def)
  with low have "(2::real) powi e < 2 powi 27"
    by linarith
  then have e27: "e < 27"
    by (rule power_int_le_imp_less_exp [rotated]) simp_all
  then have j: "26 \<le> j" and ej: "e - 52 = - int j"
    by (simp_all add: j_def)
  have u: "(2::real) powi (e - 52) = 1 / 2 ^ j"
    by (simp add: ej power_int_minus_divide)
  have res: "double_quotient x 86400000 = D"
    using pos by (simp add: double_quotient_def Let_def e_def [symmetric] u D_def r_def q_def)
  have err: "\<bar>real_of_int r - q * 2 ^ j\<bar> \<le> 1 / 2"
    unfolding r_def by (rule round_half_even_error)
  have "(2::real) ^ 26 \<le> 2 ^ j"
    using j by (intro power_increasing) simp_all
  then have small: "1 / (2::real) ^ j \<le> 1 / 2 ^ 26"
    by (intro frac_le) simp_all
  have upper: "D \<le> real_of_int \<lceil>q\<rceil>"
  proof -
    have "q * 2 ^ j \<le> real_of_int \<lceil>q\<rceil> * 2 ^ j"
      by (simp add: mult_right_mono)
    also have "\<dots> = real_of_int (\<lceil>q\<rceil> * 2 ^ j)"
      by simp
    finally have "r \<le> \<lceil>q\<rceil> * 2 ^ j"
      unfolding r_def by (rule round_half_even_le)
    then have "real_of_int r \<le> real_of_int \<lceil>q\<rceil> * 2 ^ j"
      by (metis of_int_le_iff of_int_mult of_int_numeral of_int_power)
    then show ?thesis
      by (simp add: D_def divide_le_eq)
  qed
  have lower: "real_of_int \<lfloor>q\<rfloor> \<le> D"
  proof -
    have "real_of_int (\<lfloor>q\<rfloor> * 2 ^ j) = real_of_int \<lfloor>q\<rfloor> * 2 ^ j"
      by simp
    also have "\<dots> \<le> q * 2 ^ j"
      by (simp add: mult_right_mono)
    finally have "\<lfloor>q\<rfloor> * 2 ^ j \<le> r"
      unfolding r_def by (rule round_half_even_ge)
    then have "real_of_int \<lfloor>q\<rfloor> * 2 ^ j \<le> real_of_int r"
      by (metis of_int_le_iff of_int_mult of_int_numeral of_int_power)
    then show ?thesis
      by (simp add: D_def le_divide_eq)
  qed
  show ?thesis
  proof (cases "q = real_of_int \<lfloor>q\<rfloor>")
    case True
    then have "real_of_int \<lceil>q\<rceil> = real_of_int \<lfloor>q\<rfloor>"
      by (metis ceiling_of_int)
    with upper lower True have "D = q"
      by linarith
    then show ?thesis
      by (simp only: res q_def [symmetric])
  next
    case False
    then have frac: "real_of_int \<lfloor>q\<rfloor> < q"
      by (metis of_int_floor_le order_le_less)
    then have "real_of_int (\<lfloor>q\<rfloor> * 86400000) < real_of_int x"
      by (simp add: q_def less_divide_eq)
    then have "\<lfloor>q\<rfloor> * 86400000 < x"
      by (simp only: of_int_less_iff)
    then have "\<lfloor>q\<rfloor> * 86400000 + 1 \<le> x"
      by simp
    then have "real_of_int (\<lfloor>q\<rfloor> * 86400000 + 1) \<le> real_of_int x"
      by (simp only: of_int_le_iff)
    then have gap: "real_of_int \<lfloor>q\<rfloor> + 1 / 86400000 \<le> q"
      by (simp add: q_def le_divide_eq algebra_simps)
    have "q * 2 ^ j - 1 / 2 \<le> real_of_int r"
      using err by linarith
    then have "q - 1 / 2 / 2 ^ j \<le> D"
      by (simp add: D_def le_divide_eq algebra_simps)
    moreover have "1 / 2 / (2::real) ^ j \<le> 1 / 2 / 2 ^ 26"
      using small by simp
    ultimately have "q - 1 / 2 / 2 ^ 26 \<le> D"
      by linarith
    with gap have above: "real_of_int \<lfloor>q\<rfloor> < D"
      by simp
    have c: "\<lceil>q\<rceil> = \<lfloor>q\<rfloor> + 1"
      using frac by (simp add: ceiling_unique)
    have "\<lceil>D\<rceil> = \<lfloor>q\<rfloor> + 1"
      using above upper c by (intro ceiling_unique) simp_all
    with c show ?thesis
      by (simp only: res q_def [symmetric])
  qed
qed

lemma inclusive_days_exact:
  assumes "overlapStart \<le> overlapEnd" and "overlapEnd - overlapStart \<le> 2 ^ 53"
  shows "inclusive_days overlapStart overlapEnd =
           \<lceil>real_of_int (overlapEnd - overlapStart) / 86400000\<rceil> + 1"
proof -
  define d where "d = overlapEnd - overlapStart"
  have d: "0 \<le> d" "d \<le> 2 ^ 53"
    using assms by (simp_all add: d_def)
  define c where "c = \<lceil>real_of_int d / 86400000\<rceil>"
  have "0 \<le> real_of_int d / 86400000"
    using d(1) by simp
  then have c0: "0 \<le> c"
    unfolding c_def by linarith
  have "real_of_int d \<le> 2 ^ 53"
    using d(2) by (metis of_int_le_iff of_int_numeral of_int_power)
  then have "real_of_int d / 86400000 \<le> real_of_int 104249992"
    by simp
  then have "c \<le> 104249992"
    unfolding c_def by (simp only: ceiling_le_iff)
  then have c53: "c + 1 \<le> 2 ^ 53"
    by simp
  have "inclusive_days overlapStart overlapEnd = double_int (\<lceil>double_quotient d 86400000\<rceil> + 1)"
    by (simp add: inclusive_days_def d_def [symmetric] double_int_exact [OF d])
  also have "\<dots> = double_int (c + 1)"
    by (simp add: ceiling_double_quotient_day [OF d] c_def)
  also have "\<dots> = c + 1"
    using c0 c53 by (simp add: double_int_exact)
  finally show ?thesis
    by (simp add: c_def d_def)
qed


subsection \<open>Texts and dates\<close>












lemma int_div_bounds:
  fixes x :: int and k :: int
  assumes "0 < k"
  shows "k * (x div k) \<le> x" and "x < k * (x div k) + k"
proof -
  have "k * (x div k) + x mod k = x"
    by (rule mult_div_mod_eq)
  moreover have "0 \<le> x mod k" "x mod k < k"
    using assms by simp_all
  ultimately show "k * (x div k) \<le> x" and "x < k * (x div k) + k"
    by linarith+
qed


text \<open>\<open>YearFromDay\<close> is the year of a day as the language defines it: the year whose
  first day is the last first day of a year not after the day.\<close>

lemma DayFromYear_scaled:
  "146097 * y - 287811596 \<le> 400 * DayFromYear y"
  "400 * DayFromYear y \<le> 146097 * y - 287810501"
proof -
  define a b c where "a = (y - 1969) div 4" and "b = (y - 1901) div 100"
    and "c = (y - 1601) div 400"
  have bounds: "4 * a \<le> y - 1969" "y - 1969 < 4 * a + 4"
    "100 * b \<le> y - 1901" "y - 1901 < 100 * b + 100"
    "400 * c \<le> y - 1601" "y - 1601 < 400 * c + 400"
    unfolding a_def b_def c_def by (simp_all add: int_div_bounds)
  have val: "DayFromYear y = 365 * y - 719050 + a - b + c"
    by (simp add: DayFromYear_def a_def b_def c_def)
  show "146097 * y - 287811596 \<le> 400 * DayFromYear y"
    using bounds val by linarith
  show "400 * DayFromYear y \<le> 146097 * y - 287810501"
    using bounds val by linarith
qed

lemma YearFromDay_is_year:
  "DayFromYear (YearFromDay d) \<le> d \<and> d < DayFromYear (YearFromDay d + 1)"
proof -
  define q where "q = (d * 400) div 146097"
  define y where "y = 1970 + q"
  have q: "146097 * q \<le> d * 400" "d * 400 < 146097 * q + 146097"
    unfolding q_def by (simp_all add: int_div_bounds)
  have "400 * DayFromYear (y - 1) \<le> 146097 * q - 145508"
    using DayFromYear_scaled(2) [of "y - 1"] by (simp add: y_def algebra_simps)
  then have below: "DayFromYear (y - 1) \<le> d"
    using q by linarith
  have "146097 * q + 291688 \<le> 400 * DayFromYear (y + 2)"
    using DayFromYear_scaled(1) [of "y + 2"] by (simp add: y_def algebra_simps)
  then have above: "d < DayFromYear (y + 2)"
    using q by linarith
  have res: "YearFromDay d =
      (if d < DayFromYear y then y - 1 else if DayFromYear (y + 1) \<le> d then y + 1 else y)"
    by (simp add: YearFromDay_def Let_def y_def q_def)
  show ?thesis
  proof (cases "d < DayFromYear y")
    case True
    with below res show ?thesis by simp
  next
    case False
    show ?thesis
    proof (cases "DayFromYear (y + 1) \<le> d")
      case True
      with False above res show ?thesis by (simp add: add.commute)
    next
      case no: False
      with False res show ?thesis by simp
    qed
  qed
qed




lemma new_Date_ymd_2020_05_01:
  assumes "\<bar>LocalTZA rt\<bar> \<le> msPerDay"
  shows "new_Date_ymd rt 2020 3 31 = Some (1588291200000 - LocalTZA rt)"
    and "new_Date_ymd rt 2020 4 1 = Some (1588291200000 - LocalTZA rt)"
  using assms
  by (simp_all add: new_Date_ymd_def MakeDate_def MakeDay_def DayFromYear_def DaysBeforeMonth_def
      InLeapYear_def TimeClip_def msPerDay_def)

lemma getFullYear_2020_05_01: "getFullYear rt (1588291200000 - LocalTZA rt) = 2020"
  by (simp add: getFullYear_def YearFromTime_def YearFromDay_def DayFromYear_def msPerDay_def)

lemma parseInt_examples:
  "parseInt ''31'' = Some 31" "parseInt ''04'' = Some 4" "parseInt ''2020'' = Some 2020"
  by (simp_all add: parseInt_def is_white_def is_radix_digit_def radix_digit_def digits_value_def)


lemma iso_date_parse_no_dash: "CHR ''-'' \<notin> set s \<Longrightarrow> iso_date_parse s = None"
proof -
  have "CHR ''-'' \<notin> set s \<Longrightarrow> split_on CHR ''-'' s = [s]"
    by (induction s) auto
  then show "CHR ''-'' \<notin> set s \<Longrightarrow> iso_date_parse s = None"
    by (simp add: iso_date_parse_def)
qed

section \<open>The date normalizer\<close>



text \<open>
  Claim C3, as the code has it. The text \<open>31/04/2020\<close> is not a failure. When the
  general parser of the host rejects it, the day-first reading (day 31, month 4, year
  2020) is built by the constructor, which carries day 31 of April over to 1 May 2020;
  the year is still 2020, so the guard accepts the date and the month-first reading is
  not tried.
\<close>

theorem parseFlexibleDate_31_04_2020:
  assumes "\<bar>LocalTZA rt\<bar> \<le> msPerDay"
  shows "parseFlexibleDate rt (Some ''31/04/2020'') =
           (case Date_parse rt ''31/04/2020'' of
              Some t \<Rightarrow> Some t
            | None \<Rightarrow> new_Date_ymd rt 2020 4 1) \<and>
         new_Date_ymd rt 2020 4 1 = Some (1588291200000 - LocalTZA rt) \<and>
         getFullYear rt (1588291200000 - LocalTZA rt) = 2020"
proof -
  have low: "toLowerCase ''31/04/2020'' \<noteq> ''null''"
    by (simp add: toLowerCase_def)
  have tr: "trim ''31/04/2020'' = ''31/04/2020''"
    by (simp add: trim_def is_white_def)
  have eight: "try_YYYYMMDD rt ''31/04/2020'' = None"
    by (simp add: try_YYYYMMDD_def is_8_digits_def)
  have shape: "is_d_d_yyyy CHR ''/'' ''31/04/2020''"
    by (simp add: is_d_d_yyyy_def is_digit_def)
  have slash: "try_slash rt ''31/04/2020'' = Some (1588291200000 - LocalTZA rt)"
    by (simp add: try_slash_def shape parseInt_examples minus_one_def new_Date_parts_def
        new_Date_ymd_2020_05_01 [OF assms] getFullYear_2020_05_01)
  show ?thesis
    by (simp add: parseFlexibleDate_def low tr eight slash or_else_def
        new_Date_ymd_2020_05_01 [OF assms] getFullYear_2020_05_01 split: option.split)
qed

theorem parseFlexibleDate_31_04_2020_witness:
  "\<bar>LocalTZA iso_host\<bar> \<le> msPerDay \<and> Date_parse iso_host ''31/04/2020'' = None \<and>
   parseFlexibleDate iso_host (Some ''31/04/2020'') = Some 1588291200000"
proof -
  have a: "\<bar>LocalTZA iso_host\<bar> \<le> msPerDay"
    by (simp add: iso_host_def msPerDay_def)
  have b: "Date_parse iso_host ''31/04/2020'' = None"
    by (simp add: iso_host_def iso_date_parse_no_dash)
  have z: "LocalTZA iso_host = 0"
    by (simp add: iso_host_def)
  from parseFlexibleDate_31_04_2020 [OF a]
  have "parseFlexibleDate iso_host (Some ''31/04/2020'') = Some (1588291200000 - LocalTZA iso_host)"
    by (simp add: b)
  with a b z show ?thesis
    by simp
qed

text \<open>Claim C3, as stated, fails: on a host in UTC whose general parser rejects the
  text, the result is the time value of 1 May 2020 and not the \<open>null\<close> of a failure.\<close>

theorem parseFlexibleDate_31_04_2020_counterexample:
  "parseFlexibleDate iso_host (Some ''31/04/2020'') = Some 1588291200000 \<and>
   parseFlexibleDate iso_host (Some ''31/04/2020'') \<noteq> None"
  by code_simp

section \<open>The overlap of two records\<close>


lemma calculateOverlap_value:
  "fst (calculateOverlap clk s1 e1 s2 e2 n) =
     (let eff1 = (case e1 of Some t \<Rightarrow> t | None \<Rightarrow> clk n);
          eff2 = (case e2 of Some t \<Rightarrow> t | None \<Rightarrow> clk (if e1 = None then Suc n else n))
      in if max s1 s2 \<le> min eff1 eff2
         then inclusive_days (max s1 s2) (min eff1 eff2) else 0)"
  by (cases e1; cases e2)
    (simp_all add: calculateOverlap_def or_now_def Let_def inclusive_days_def)

lemma calculateOverlap_reads:
  "snd (calculateOverlap clk s1 e1 s2 e2 n) =
     n + (if e1 = None then 1 else 0) + (if e2 = None then 1 else 0)"
  by (cases e1; cases e2) (simp_all add: calculateOverlap_def or_now_def Let_def)

lemma pair_step_no_overlap:
  assumes "fst (calculateOverlap clk (dateFrom r1) (dateTo r1) (dateFrom r2) (dateTo r2) (fst st)) = 0"
  shows "snd (pair_step clk pid r1 r2 st) = snd st"
  using assms by (simp add: pair_step_def split_beta)

lemma calculateOverlap_swap:
  "calculateOverlap clk s1 e1 s2 e2 n = calculateOverlap clk s2 e2 s1 e1 n"
  by (cases e1; cases e2)
    (simp_all add: calculateOverlap_def or_now_def max.commute min.commute)

lemma detail_end_swap:
  "min (fst (or_now clk e1 n)) (fst (or_now clk e2 (snd (or_now clk e1 n)))) =
   min (fst (or_now clk e2 n)) (fst (or_now clk e1 (snd (or_now clk e2 n))))"
  "snd (or_now clk e2 (snd (or_now clk e1 n))) = snd (or_now clk e1 (snd (or_now clk e2 n)))"
  by (cases e1; cases e2; simp add: or_now_def min.commute)+

text \<open>
  Claim C9. With one moment standing for every \<open>null\<close> end, \<open>calculateOverlap\<close> gives
  the same number of days, and makes the same number of clock reads, when its two
  intervals are exchanged. The same holds for every clock: the clock is read once for
  each \<open>null\<close> end, and the earlier of the two ends does not depend on their order.
\<close>

theorem calculateOverlap_symmetric:
  "calculateOverlap (fixed_clock t) start1 end1 start2 end2 n =
     calculateOverlap (fixed_clock t) start2 end2 start1 end1 n \<and>
   calculateOverlap clk start1 end1 start2 end2 n =
     calculateOverlap clk start2 end2 start1 end1 n"
  by (simp add: calculateOverlap_swap [of _ start1 end1 start2 end2 n])

theorem calculateOverlap_symmetric_witness:
  "calculateOverlap (fixed_clock 1700000000000) 1337126400000 None 1346803200000
     (Some 1383264000000) 0 = (423, 1) \<and>
   calculateOverlap (fixed_clock 1700000000000) 1346803200000 (Some 1383264000000)
     1337126400000 None 0 = (423, 1)"
proof -
  have "calculateOverlap (fixed_clock 1700000000000) 1337126400000 None 1346803200000
     (Some 1383264000000) 0 = (423, 1)"
    by code_simp
  with calculateOverlap_symmetric [of 1700000000000 1337126400000 None 1346803200000
      "Some 1383264000000" 0 "fixed_clock 1700000000000"]
  show ?thesis
    by simp
qed

section \<open>The key of a pair\<close>

text \<open>
  Claim C6. The key of a pair does not depend on the order of the two employee ids: it
  is built from the smaller and the larger id. Two records met with their ids in the
  order \<open>(b, a)\<close> change the map of aggregates exactly as they do in the order \<open>(a, b)\<close>,
  and so do two records met in the other order.
\<close>

theorem pairKey_order_insensitive:
  "pairKey_of a b = pairKey_of b a \<and>
   pairKey_of a b = string_of_int (min a b) @ ''-'' @ string_of_int (max a b) \<and>
   pair_step clk pid (r1\<lparr>empId := b\<rparr>) (r2\<lparr>empId := a\<rparr>) st =
     pair_step clk pid (r1\<lparr>empId := a\<rparr>) (r2\<lparr>empId := b\<rparr>) st \<and>
   pair_step clk pid r2 r1 st = pair_step clk pid r1 r2 st"
proof -
  have key: "pairKey_of y x = pairKey_of x y" for x y
    by (simp add: pairKey_of_def min.commute max.commute)
  have ids: "min b a = min a b" "max b a = max a b"
    by (simp_all add: min.commute max.commute)
  have ids_swapped: "pair_step clk pid (r1\<lparr>empId := b\<rparr>) (r2\<lparr>empId := a\<rparr>) st =
      pair_step clk pid (r1\<lparr>empId := a\<rparr>) (r2\<lparr>empId := b\<rparr>) st"
    by (simp add: pair_step_def Let_def split_beta key [of a b] ids cong: option.case_cong)
  have fields: "min (empId r2) (empId r1) = min (empId r1) (empId r2)"
    "max (empId r2) (empId r1) = max (empId r1) (empId r2)"
    "max (dateFrom r2) (dateFrom r1) = max (dateFrom r1) (dateFrom r2)"
    by (simp_all add: min.commute max.commute)
  have ov: "calculateOverlap clk (dateFrom r2) (dateTo r2) (dateFrom r1) (dateTo r1) (fst st) =
      calculateOverlap clk (dateFrom r1) (dateTo r1) (dateFrom r2) (dateTo r2) (fst st)"
    by (rule calculateOverlap_swap)
  have records_swapped: "pair_step clk pid r2 r1 st = pair_step clk pid r1 r2 st"
    by (simp add: pair_step_def Let_def split_beta key [of "empId r1" "empId r2"] fields ov
        detail_end_swap [where ?e1.0 = "dateTo r2" and ?e2.0 = "dateTo r1"]
        cong: option.case_cong)
  from key [of b a] ids_swapped records_swapped show ?thesis
    by (simp add: pairKey_of_def)
qed

theorem pairKey_order_insensitive_witness:
  "pairKey_of 218 143 = ''143-218'' \<and> pairKey_of 143 218 = ''143-218''"
proof -
  have "pairKey_of 143 218 = ''143-218''"
    by code_simp
  with pairKey_order_insensitive [of 218 143] show ?thesis
    by simp
qed

section \<open>The empty input\<close>

text \<open>
  Claim C7. On the empty list of records the aggregator returns a result, whatever the
  clock: all four counts are zero, the list of pairs is empty, and the headline is the
  message that no pairs were found.
\<close>

theorem analyzeEmployees_empty:
  "analyzeEmployees clk [] =
     \<lparr>topPair = ''No employee pairs found that worked together'',
      allPairs = [],
      summary = \<lparr>totalRecords = 0, uniqueEmployees = 0, uniqueProjects = 0, employeePairs = 0\<rparr>,
      processedData = [],
      errors = []\<rparr>"
  by (simp add: analyzeEmployees_def find_pairs_def sort_pairs_def headline_def)

theorem analyzeEmployees_empty_witness:
  "topPair (analyzeEmployees (fixed_clock 1700000000000) []) =
     ''No employee pairs found that worked together'' \<and>
   allPairs (analyzeEmployees (fixed_clock 1700000000000) []) = [] \<and>
   totalRecords (summary (analyzeEmployees (fixed_clock 1700000000000) [])) = 0"
  using analyzeEmployees_empty [of "fixed_clock 1700000000000"]
  by simp

section \<open>The aggregates of the analysis\<close>

lemma set_update_subset: "set (AList.update k v al) \<subseteq> insert (k, v) (set al)"
  by (induction al) auto

lemma update_values:
  assumes "\<forall>p\<in>snd ` set al. P p" and "P v"
  shows "\<forall>p\<in>snd ` set (AList.update k v al). P p"
  using assms set_update_subset [of k v al] by fastforce

lemma lookup_value:
  assumes "\<forall>p\<in>snd ` set al. P p" and "P d"
  shows "P (case map_of al k of Some p \<Rightarrow> p | None \<Rightarrow> d)"
proof (cases "map_of al k")
  case None
  then show ?thesis using assms(2) by simp
next
  case (Some p)
  then have "(k, p) \<in> set al"
    by (rule map_of_SomeD)
  then have "P p"
    using assms(1) by force
  with Some show ?thesis by simp
qed

text \<open>The map after one step of the inner loop: the aggregate of the key, fresh if the
  key is new, with the days added and one detail appended, or the map unchanged.\<close>

lemma pair_step_map:
  "snd (pair_step clk pid e1 e2 st) =
     (let ov = calculateOverlap clk (dateFrom e1) (dateTo e1) (dateFrom e2) (dateTo e2) (fst st);
          k = pairKey_of (empId e1) (empId e2);
          pair = (case map_of (snd st) k of
                    Some p \<Rightarrow> p
                  | None \<Rightarrow> \<lparr>emp1 = min (empId e1) (empId e2), emp2 = max (empId e1) (empId e2),
                             totalDays = 0, commonProjects = []\<rparr>);
          t1 = or_now clk (dateTo e1) (snd ov);
          t2 = or_now clk (dateTo e2) (snd t1);
          detail = \<lparr>cp_projectId = pid, overlapDays = fst ov,
                    cp_dateFrom = max (dateFrom e1) (dateFrom e2),
                    cp_dateTo = min (fst t1) (fst t2)\<rparr>
      in if 0 < fst ov
         then AList.update k
                (pair\<lparr>totalDays := totalDays pair + fst ov,
                      commonProjects := commonProjects pair @ [detail]\<rparr>) (snd st)
         else snd st)"
proof (cases "map_of (snd st) (pairKey_of (empId e1) (empId e2))")
  case None
  then show ?thesis
    by (simp add: pair_step_def split_beta Let_def update_conv')
next
  case (Some p)
  then show ?thesis
    by (simp add: pair_step_def split_beta Let_def)
qed

text \<open>A property of every aggregate of the map that holds of the aggregate a step
  creates and is kept when days and details are added is kept by the loops.\<close>

lemma pair_step_invariant:
  assumes inv: "\<forall>p\<in>snd ` set (snd st). P p"
    and fresh: "0 < fst (calculateOverlap clk (dateFrom e1) (dateTo e1) (dateFrom e2) (dateTo e2)
                        (fst st)) \<Longrightarrow>
      P \<lparr>emp1 = min (empId e1) (empId e2), emp2 = max (empId e1) (empId e2),
         totalDays = 0, commonProjects = []\<rparr>"
    and kept: "\<And>p d c. P p \<Longrightarrow> P (p\<lparr>totalDays := d, commonProjects := c\<rparr>)"
  shows "\<forall>p\<in>snd ` set (snd (pair_step clk pid e1 e2 st)). P p"
proof (cases "0 < fst (calculateOverlap clk (dateFrom e1) (dateTo e1) (dateFrom e2) (dateTo e2)
                        (fst st))")
  case False
  then have "snd (pair_step clk pid e1 e2 st) = snd st"
    by (simp add: pair_step_map Let_def)
  with inv show ?thesis
    by simp
next
  case True
  define pair where
    "pair = (case map_of (snd st) (pairKey_of (empId e1) (empId e2)) of
               Some p \<Rightarrow> p
             | None \<Rightarrow> \<lparr>emp1 = min (empId e1) (empId e2), emp2 = max (empId e1) (empId e2),
                        totalDays = 0, commonProjects = []\<rparr>)"
  have "P pair"
    unfolding pair_def by (rule lookup_value [where P = P, OF inv fresh [OF True]])
  then have "P (pair\<lparr>totalDays := d, commonProjects := c\<rparr>)" for d c
    by (rule kept)
  then have "\<forall>p\<in>snd ` set (AList.update k (pair\<lparr>totalDays := d, commonProjects := c\<rparr>) (snd st)). P p"
    for k d c
    by (rule update_values [where P = P, OF inv])
  then show ?thesis
    using True unfolding pair_step_map Let_def pair_def by simp
qed

lemma inner_loop_invariant:
  assumes "\<forall>p\<in>snd ` set (snd st). P p"
    and "\<And>e2 n. e2 \<in> set rest \<Longrightarrow>
      0 < fst (calculateOverlap clk (dateFrom e1) (dateTo e1) (dateFrom e2) (dateTo e2) n) \<Longrightarrow>
      P \<lparr>emp1 = min (empId e1) (empId e2), emp2 = max (empId e1) (empId e2),
         totalDays = 0, commonProjects = []\<rparr>"
    and "\<And>p d c. P p \<Longrightarrow> P (p\<lparr>totalDays := d, commonProjects := c\<rparr>)"
  shows "\<forall>p\<in>snd ` set (snd (inner_loop clk pid e1 rest st)). P p"
  using assms
proof (induction rest arbitrary: st)
  case Nil
  then show ?case by (simp only: inner_loop.simps)
next
  case (Cons e2 rest)
  have step: "\<forall>p\<in>snd ` set (snd (pair_step clk pid e1 e2 st)). P p"
    by (rule pair_step_invariant [where P = P, OF Cons.prems(1) _ Cons.prems(3)])
      (rule Cons.prems(2), simp)
  have "\<forall>p\<in>snd ` set (snd (inner_loop clk pid e1 rest (pair_step clk pid e1 e2 st))). P p"
    by (rule Cons.IH [OF step _ Cons.prems(3)]) (rule Cons.prems(2), simp)
  then show ?case
    by (simp only: inner_loop.simps)
qed

lemma outer_loop_invariant:
  assumes "\<forall>p\<in>snd ` set (snd st). P p"
    and "\<And>e1 e2 n. (e1, e2) \<in> set (pairs_of employees) \<Longrightarrow>
      0 < fst (calculateOverlap clk (dateFrom e1) (dateTo e1) (dateFrom e2) (dateTo e2) n) \<Longrightarrow>
      P \<lparr>emp1 = min (empId e1) (empId e2), emp2 = max (empId e1) (empId e2),
         totalDays = 0, commonProjects = []\<rparr>"
    and "\<And>p d c. P p \<Longrightarrow> P (p\<lparr>totalDays := d, commonProjects := c\<rparr>)"
  shows "\<forall>p\<in>snd ` set (snd (outer_loop clk pid employees st)). P p"
  using assms
proof (induction employees arbitrary: st)
  case Nil
  then show ?case by (simp only: outer_loop.simps)
next
  case (Cons e1 rest)
  have inner: "\<forall>p\<in>snd ` set (snd (inner_loop clk pid e1 rest st)). P p"
    by (rule inner_loop_invariant [where P = P, OF Cons.prems(1) _ Cons.prems(3)])
      (rule Cons.prems(2), simp)
  have "\<forall>p\<in>snd ` set (snd (outer_loop clk pid rest (inner_loop clk pid e1 rest st))). P p"
    by (rule Cons.IH [OF inner _ Cons.prems(3)]) (rule Cons.prems(2), simp)
  then show ?case
    by (simp only: outer_loop.simps)
qed

lemma forEach_group_invariant:
  assumes "\<forall>p\<in>snd ` set (snd st). P p"
    and "\<And>pid employees e1 e2 n. (pid, employees) \<in> set groups \<Longrightarrow>
      (e1, e2) \<in> set (pairs_of employees) \<Longrightarrow>
      0 < fst (calculateOverlap clk (dateFrom e1) (dateTo e1) (dateFrom e2) (dateTo e2) n) \<Longrightarrow>
      P \<lparr>emp1 = min (empId e1) (empId e2), emp2 = max (empId e1) (empId e2),
         totalDays = 0, commonProjects = []\<rparr>"
    and "\<And>p d c. P p \<Longrightarrow> P (p\<lparr>totalDays := d, commonProjects := c\<rparr>)"
  shows "\<forall>p\<in>snd ` set (snd (forEach_group clk groups st)). P p"
  using assms
proof (induction groups arbitrary: st)
  case Nil
  then show ?case by (simp only: forEach_group.simps)
next
  case (Cons g groups)
  obtain pid employees where g: "g = (pid, employees)"
    by (cases g)
  have outer: "\<forall>p\<in>snd ` set (snd (outer_loop clk pid employees st)). P p"
  proof (rule outer_loop_invariant [where P = P, OF Cons.prems(1) _ Cons.prems(3)])
    fix e1 e2 n
    assume "(e1, e2) \<in> set (pairs_of employees)"
      and "0 < fst (calculateOverlap clk (dateFrom e1) (dateTo e1) (dateFrom e2) (dateTo e2) n)"
    then show "P \<lparr>emp1 = min (empId e1) (empId e2), emp2 = max (empId e1) (empId e2),
         totalDays = 0, commonProjects = []\<rparr>"
      using Cons.prems(2) [of pid employees e1 e2 n] by (simp add: g)
  qed
  have "\<forall>p\<in>snd ` set (snd (forEach_group clk groups (outer_loop clk pid employees st))). P p"
  proof (rule Cons.IH [OF outer _ Cons.prems(3)])
    fix k es e1 e2 n
    assume "(k, es) \<in> set groups" and "(e1, e2) \<in> set (pairs_of es)"
      and "0 < fst (calculateOverlap clk (dateFrom e1) (dateTo e1) (dateFrom e2) (dateTo e2) n)"
    then show "P \<lparr>emp1 = min (empId e1) (empId e2), emp2 = max (empId e1) (empId e2),
         totalDays = 0, commonProjects = []\<rparr>"
      using Cons.prems(2) [of k es e1 e2 n] by simp
  qed
  then show ?case
    unfolding g by (simp only: forEach_group.simps)
qed

text \<open>The groups: every key holds the records of its project, in the order of the
  input.\<close>

lemma group_record_update:
  "group_record g r =
     AList.update (projectId r)
       ((case map_of g (projectId r) of Some es \<Rightarrow> es | None \<Rightarrow> []) @ [r]) g"
  by (cases "map_of g (projectId r)") (simp_all add: group_record_def update_conv')

lemma group_record_step:
  assumes "distinct (map fst g)"
    and "\<And>pid. map_of g pid =
      (if pid \<in> projectId ` set xs then Some (filter (\<lambda>r. projectId r = pid) xs) else None)"
  shows "distinct (map fst (group_record g y))"
    and "map_of (group_record g y) pid =
      (if pid \<in> projectId ` set (xs @ [y])
       then Some (filter (\<lambda>r. projectId r = pid) (xs @ [y])) else None)"
proof -
  show "distinct (map fst (group_record g y))"
    unfolding group_record_update by (rule distinct_update [OF assms(1)])
  have none: "filter (\<lambda>r. projectId r = k) xs = []" if "k \<notin> projectId ` set xs" for k
    using that by (auto simp: filter_empty_conv)
  show "map_of (group_record g y) pid =
      (if pid \<in> projectId ` set (xs @ [y])
       then Some (filter (\<lambda>r. projectId r = pid) (xs @ [y])) else None)"
    by (auto simp: group_record_update update_conv' assms(2) none)
qed

lemma groups_of_records:
  assumes "distinct (map fst g)"
    and "\<And>pid. map_of g pid =
      (if pid \<in> projectId ` set xs then Some (filter (\<lambda>r. projectId r = pid) xs) else None)"
  shows "distinct (map fst (foldl group_record g ys)) \<and>
    (\<forall>pid. map_of (foldl group_record g ys) pid =
      (if pid \<in> projectId ` set (xs @ ys)
       then Some (filter (\<lambda>r. projectId r = pid) (xs @ ys)) else None))"
  using assms
proof (induction ys arbitrary: g xs)
  case Nil
  then show ?case by simp
next
  case (Cons y ys)
  have "distinct (map fst (foldl group_record (group_record g y) ys)) \<and>
    (\<forall>pid. map_of (foldl group_record (group_record g y) ys) pid =
      (if pid \<in> projectId ` set ((xs @ [y]) @ ys)
       then Some (filter (\<lambda>r. projectId r = pid) ((xs @ [y]) @ ys)) else None))"
    by (rule Cons.IH) (rule group_record_step [OF Cons.prems])+
  then show ?case
    by simp
qed

lemma group_is_filter:
  assumes "(pid, employees) \<in> set (foldl group_record [] data)"
  shows "employees = filter (\<lambda>r. projectId r = pid) data"
proof -
  have g: "distinct (map fst (foldl group_record [] data))"
    "\<And>k. map_of (foldl group_record [] data) k =
      (if k \<in> projectId ` set data then Some (filter (\<lambda>r. projectId r = k) data) else None)"
    using groups_of_records [of "[]" "[]" data] by simp_all
  from assms g(1) have "map_of (foldl group_record [] data) pid = Some employees"
    by simp
  then show ?thesis
    unfolding g(2) by (simp split: if_splits)
qed

lemma pairs_of_filter:
  "(a, b) \<in> set (pairs_of (filter P xs)) \<Longrightarrow> (a, b) \<in> set (pairs_of xs) \<and> P a \<and> P b"
  by (induction xs) (auto split: if_splits)

text \<open>The key of a pair determines the smaller and the larger id: a decimal text has no
  hyphen after its sign, and determines its number.\<close>

lemma digit_char_is_digit: "n < 10 \<Longrightarrow> digit_char n \<in> set ''0123456789''"
  unfolding digit_char_def by (rule nth_mem) simp

lemma digit_char_inject:
  assumes "m < 10" and "n < 10" and "digit_char m = digit_char n"
  shows "m = n"
proof -
  have "distinct ''0123456789''"
    by simp
  moreover have "m < length ''0123456789''" "n < length ''0123456789''"
    using assms by simp_all
  ultimately show ?thesis
    using assms(3) unfolding digit_char_def by (simp only: nth_eq_iff_index_eq)
qed

lemma string_of_nat_digits: "set (string_of_nat n) \<subseteq> set ''0123456789''"
proof (induction n rule: string_of_nat.induct)
  case (1 n)
  show ?case
  proof (cases "n < 10")
    case True
    then show ?thesis
      using digit_char_is_digit [of n] by (subst string_of_nat.simps) simp
  next
    case False
    have "n mod 10 < 10"
      by simp
    then have "digit_char (n mod 10) \<in> set ''0123456789''"
      by (rule digit_char_is_digit)
    with False 1 show ?thesis
      by (subst string_of_nat.simps) simp
  qed
qed

lemma string_of_nat_no_dash: "CHR ''-'' \<notin> set (string_of_nat n)"
  using string_of_nat_digits [of n] by auto

lemma string_of_nat_not_Nil: "string_of_nat n \<noteq> []"
  by (subst string_of_nat.simps) simp

lemma string_of_nat_length: "length (string_of_nat n) = 1 \<longleftrightarrow> n < 10"
proof (cases "n < 10")
  case True
  then show ?thesis by (subst string_of_nat.simps) simp
next
  case False
  have "length (string_of_nat (n div 10)) \<noteq> 0"
    using string_of_nat_not_Nil by simp
  with False show ?thesis
    by (subst string_of_nat.simps) simp
qed

lemma string_of_nat_inject: "string_of_nat m = string_of_nat n \<Longrightarrow> m = n"
proof (induction m arbitrary: n rule: string_of_nat.induct)
  case (1 m)
  show ?case
  proof (cases "m < 10")
    case True
    then have "length (string_of_nat n) = 1"
      using "1.prems" string_of_nat_length [of m] by simp
    then have n: "n < 10"
      using string_of_nat_length [of n] by blast
    from "1.prems" True n have "digit_char m = digit_char n"
      by (subst (asm) string_of_nat.simps, subst (asm) (2) string_of_nat.simps) simp
    with True n show ?thesis
      by (rule digit_char_inject)
  next
    case False
    then have "length (string_of_nat n) \<noteq> 1"
      using "1.prems" string_of_nat_length [of m] by simp
    then have n: "\<not> n < 10"
      using string_of_nat_length [of n] by blast
    have "string_of_nat (m div 10) @ [digit_char (m mod 10)] =
        string_of_nat (n div 10) @ [digit_char (n mod 10)]"
      using "1.prems" False n
      by (subst (asm) string_of_nat.simps, subst (asm) (2) string_of_nat.simps) simp
    then have front: "string_of_nat (m div 10) = string_of_nat (n div 10)"
      and last: "digit_char (m mod 10) = digit_char (n mod 10)"
      by simp_all
    have "m div 10 = n div 10"
      using False front by (rule "1.IH")
    moreover have "m mod 10 = n mod 10"
      by (rule digit_char_inject [OF _ _ last]) simp_all
    ultimately show ?thesis
      by (metis div_mult_mod_eq)
  qed
qed

lemma split_at_dash:
  assumes "CHR ''-'' \<notin> set xs" and "CHR ''-'' \<notin> set ys"
    and "xs @ CHR ''-'' # b = ys @ CHR ''-'' # d"
  shows "xs = ys \<and> b = d"
proof -
  have "takeWhile (\<lambda>c. c \<noteq> CHR ''-'') (xs @ CHR ''-'' # b) = xs"
    using assms(1) by (auto simp: takeWhile_tail)
  moreover have "takeWhile (\<lambda>c. c \<noteq> CHR ''-'') (ys @ CHR ''-'' # d) = ys"
    using assms(2) by (auto simp: takeWhile_tail)
  ultimately have "xs = ys"
    using assms(3) by simp
  with assms(3) show ?thesis
    by simp
qed

lemma string_of_nat_hd: "hd (string_of_nat n) \<noteq> CHR ''-''"
  using string_of_nat_no_dash [of n] string_of_nat_not_Nil [of n] hd_in_set by metis

lemma string_of_int_key:
  assumes "string_of_int a @ CHR ''-'' # x = string_of_int c @ CHR ''-'' # y"
  shows "a = c \<and> x = y"
proof -
  have neg: "hd (string_of_int i @ z) = CHR ''-'' \<longleftrightarrow> i < 0" for i z
    using string_of_nat_hd [of "nat i"] string_of_nat_not_Nil [of "nat i"]
    by (simp add: string_of_int_def)
  have sign: "a < 0 \<longleftrightarrow> c < 0"
    using neg [of a "CHR ''-'' # x"] neg [of c "CHR ''-'' # y"] assms by simp
  show ?thesis
  proof (cases "a < 0")
    case True
    with sign have c: "c < 0" by simp
    from assms True c have "string_of_nat (nat (- a)) @ CHR ''-'' # x =
        string_of_nat (nat (- c)) @ CHR ''-'' # y"
      by (simp add: string_of_int_def)
    then have "string_of_nat (nat (- a)) = string_of_nat (nat (- c)) \<and> x = y"
      by (rule split_at_dash [OF string_of_nat_no_dash string_of_nat_no_dash])
    then have "nat (- a) = nat (- c) \<and> x = y"
      using string_of_nat_inject by blast
    with True c show ?thesis
      by arith
  next
    case False
    with sign have c: "\<not> c < 0" by simp
    from assms False c have "string_of_nat (nat a) @ CHR ''-'' # x =
        string_of_nat (nat c) @ CHR ''-'' # y"
      by (simp add: string_of_int_def)
    then have "string_of_nat (nat a) = string_of_nat (nat c) \<and> x = y"
      by (rule split_at_dash [OF string_of_nat_no_dash string_of_nat_no_dash])
    then have "nat a = nat c \<and> x = y"
      using string_of_nat_inject by blast
    with False c show ?thesis
      by arith
  qed
qed

lemma string_of_int_inject: "string_of_int a = string_of_int c \<Longrightarrow> a = c"
  using string_of_int_key [of a "[]" c "[]"] by simp

lemma pairKey_of_inject:
  assumes "pairKey_of a b = pairKey_of c d"
  shows "min a b = min c d \<and> max a b = max c d"
proof -
  from assms have "string_of_int (min a b) @ CHR ''-'' # string_of_int (max a b) =
      string_of_int (min c d) @ CHR ''-'' # string_of_int (max c d)"
    by (simp add: pairKey_of_def)
  then have "min a b = min c d \<and> string_of_int (max a b) = string_of_int (max c d)"
    by (rule string_of_int_key)
  then show ?thesis
    using string_of_int_inject by blast
qed


text \<open>The map after one step, key by key.\<close>

lemma pair_step_other:
  assumes "k \<noteq> pairKey_of (empId e1) (empId e2)"
  shows "map_of (snd (pair_step clk pid e1 e2 st)) k = map_of (snd st) k"
  using assms by (simp add: pair_step_map Let_def update_conv')

lemma pair_step_idle:
  assumes "\<not> 0 < fst (calculateOverlap clk (dateFrom e1) (dateTo e1) (dateFrom e2) (dateTo e2)
                        (fst st))"
  shows "snd (pair_step clk pid e1 e2 st) = snd st"
  using assms by (simp add: pair_step_map Let_def)

lemma pair_step_key:
  assumes "0 < fst (calculateOverlap clk (dateFrom e1) (dateTo e1) (dateFrom e2) (dateTo e2)
                      (fst st))"
  shows "\<exists>d c. map_of (snd (pair_step clk pid e1 e2 st)) (pairKey_of (empId e1) (empId e2)) =
      Some ((case map_of (snd st) (pairKey_of (empId e1) (empId e2)) of
               Some p \<Rightarrow> p
             | None \<Rightarrow> \<lparr>emp1 = min (empId e1) (empId e2), emp2 = max (empId e1) (empId e2),
                        totalDays = 0, commonProjects = []\<rparr>)
            \<lparr>totalDays := d, commonProjects := c\<rparr>)"
  using assms by (simp add: pair_step_map Let_def update_conv') blast

text \<open>What every step keeps, the loops keep; what one step brings about and every
  step keeps holds after the loops, if they come to that step.\<close>

lemma inner_loop_keeps:
  assumes "\<And>pid e1 e2 st. Q (snd st) \<Longrightarrow> Q (snd (pair_step clk pid e1 e2 st))"
    and "Q (snd st)"
  shows "Q (snd (inner_loop clk pid e1 rest st))"
  using assms(2)
proof (induction rest arbitrary: st)
  case Nil
  then show ?case by (simp only: inner_loop.simps)
next
  case (Cons e2 rest)
  have "Q (snd (inner_loop clk pid e1 rest (pair_step clk pid e1 e2 st)))"
    by (rule Cons.IH, rule assms(1), rule Cons.prems)
  then show ?case
    by (simp only: inner_loop.simps)
qed

lemma outer_loop_keeps:
  assumes "\<And>pid e1 e2 st. Q (snd st) \<Longrightarrow> Q (snd (pair_step clk pid e1 e2 st))"
    and "Q (snd st)"
  shows "Q (snd (outer_loop clk pid employees st))"
  using assms(2)
proof (induction employees arbitrary: st)
  case Nil
  then show ?case by (simp only: outer_loop.simps)
next
  case (Cons e1 rest)
  have "Q (snd (outer_loop clk pid rest (inner_loop clk pid e1 rest st)))"
    by (rule Cons.IH, rule inner_loop_keeps [where Q = Q, OF assms(1)], assumption,
        rule Cons.prems)
  then show ?case
    by (simp only: outer_loop.simps)
qed

lemma forEach_group_keeps:
  assumes "\<And>pid e1 e2 st. Q (snd st) \<Longrightarrow> Q (snd (pair_step clk pid e1 e2 st))"
    and "Q (snd st)"
  shows "Q (snd (forEach_group clk groups st))"
  using assms(2)
proof (induction groups arbitrary: st)
  case Nil
  then show ?case by (simp only: forEach_group.simps)
next
  case (Cons g groups)
  obtain pid employees where g: "g = (pid, employees)"
    by (cases g)
  have "Q (snd (forEach_group clk groups (outer_loop clk pid employees st)))"
    by (rule Cons.IH, rule outer_loop_keeps [where Q = Q, OF assms(1)], assumption,
        rule Cons.prems)
  then show ?case
    unfolding g by (simp only: forEach_group.simps)
qed

lemma inner_loop_reaches:
  assumes keeps: "\<And>pid e1 e2 st. Q (snd st) \<Longrightarrow> Q (snd (pair_step clk pid e1 e2 st))"
    and brings: "\<And>pid st. Q (snd (pair_step clk pid r1 r2 st))"
    and "r2 \<in> set rest"
  shows "Q (snd (inner_loop clk pid r1 rest st))"
  using assms(3)
proof (induction rest arbitrary: st)
  case Nil
  then show ?case by simp
next
  case (Cons e2 rest)
  have "Q (snd (inner_loop clk pid r1 rest (pair_step clk pid r1 e2 st)))"
  proof (cases "e2 = r2")
    case True
    show ?thesis
      unfolding True
      by (rule inner_loop_keeps [where Q = Q, OF keeps], assumption, rule brings)
  next
    case False
    with Cons.prems have "r2 \<in> set rest"
      by simp
    then show ?thesis
      by (rule Cons.IH)
  qed
  then show ?case
    by (simp only: inner_loop.simps)
qed

lemma outer_loop_reaches:
  assumes keeps: "\<And>pid e1 e2 st. Q (snd st) \<Longrightarrow> Q (snd (pair_step clk pid e1 e2 st))"
    and brings: "\<And>pid st. Q (snd (pair_step clk pid r1 r2 st))"
    and "(r1, r2) \<in> set (pairs_of employees)"
  shows "Q (snd (outer_loop clk pid employees st))"
  using assms(3)
proof (induction employees arbitrary: st)
  case Nil
  then show ?case by simp
next
  case (Cons e1 rest)
  have "Q (snd (outer_loop clk pid rest (inner_loop clk pid e1 rest st)))"
  proof (cases "(r1, r2) \<in> set (pairs_of rest)")
    case True
    then show ?thesis
      by (rule Cons.IH)
  next
    case False
    with Cons.prems have first: "e1 = r1" and "r2 \<in> set rest"
      by auto
    then have "Q (snd (inner_loop clk pid e1 rest st))"
      unfolding first
      by - (rule inner_loop_reaches [where Q = Q, OF keeps brings], assumption)
    then show ?thesis
      by - (rule outer_loop_keeps [where Q = Q, OF keeps], assumption)
  qed
  then show ?case
    by (simp only: outer_loop.simps)
qed

lemma forEach_group_reaches:
  assumes keeps: "\<And>pid e1 e2 st. Q (snd st) \<Longrightarrow> Q (snd (pair_step clk pid e1 e2 st))"
    and brings: "\<And>pid st. Q (snd (pair_step clk pid r1 r2 st))"
    and "(k, employees) \<in> set groups"
    and pair: "(r1, r2) \<in> set (pairs_of employees)"
  shows "Q (snd (forEach_group clk groups st))"
  using assms(3)
proof (induction groups arbitrary: st)
  case Nil
  then show ?case by simp
next
  case (Cons g groups)
  obtain pid es where g: "g = (pid, es)"
    by (cases g)
  have "Q (snd (forEach_group clk groups (outer_loop clk pid es st)))"
  proof (cases "(k, employees) \<in> set groups")
    case True
    then show ?thesis
      by (rule Cons.IH)
  next
    case False
    with Cons.prems g have "es = employees"
      by simp
    with pair have "(r1, r2) \<in> set (pairs_of es)"
      by simp
    then have "Q (snd (outer_loop clk pid es st))"
      by - (rule outer_loop_reaches [where Q = Q, OF keeps brings], assumption)
    then show ?thesis
      by - (rule forEach_group_keeps [where Q = Q, OF keeps], assumption)
  qed
  then show ?case
    unfolding g by (simp only: forEach_group.simps)
qed

lemma pairs_of_members: "(a, b) \<in> set (pairs_of xs) \<Longrightarrow> a \<in> set xs \<and> b \<in> set xs"
  by (induction xs) auto

lemma pairs_of_filter_member:
  "(a, b) \<in> set (pairs_of xs) \<Longrightarrow> P a \<Longrightarrow> P b \<Longrightarrow> (a, b) \<in> set (pairs_of (filter P xs))"
  by (induction xs) auto

lemma group_of_project:
  assumes "r \<in> set data"
  shows "(projectId r, filter (\<lambda>x. projectId x = projectId r) data)
    \<in> set (foldl group_record [] data)"
proof -
  have "map_of (foldl group_record [] data) (projectId r) =
      (if projectId r \<in> projectId ` set data
       then Some (filter (\<lambda>x. projectId x = projectId r) data) else None)"
    using groups_of_records [of "[]" "[]" data] by simp
  with assms have "map_of (foldl group_record [] data) (projectId r) =
      Some (filter (\<lambda>x. projectId x = projectId r) data)"
    by simp
  then show ?thesis
    by (rule map_of_SomeD)
qed

text \<open>Every aggregate of the map holds the two ids of its key.\<close>

lemma pair_step_keyed:
  assumes inv: "\<forall>k p a b. map_of (snd st) k = Some p \<longrightarrow> k = pairKey_of a b \<longrightarrow>
      emp1 p = min a b \<and> emp2 p = max a b"
  shows "\<forall>k p a b. map_of (snd (pair_step clk pid e1 e2 st)) k = Some p \<longrightarrow> k = pairKey_of a b \<longrightarrow>
      emp1 p = min a b \<and> emp2 p = max a b"
proof (intro allI impI)
  fix k p a b
  assume look: "map_of (snd (pair_step clk pid e1 e2 st)) k = Some p" and k: "k = pairKey_of a b"
  show "emp1 p = min a b \<and> emp2 p = max a b"
  proof (cases "0 < fst (calculateOverlap clk (dateFrom e1) (dateTo e1) (dateFrom e2) (dateTo e2)
                        (fst st)) \<and> k = pairKey_of (empId e1) (empId e2)")
    case False
    then have "map_of (snd (pair_step clk pid e1 e2 st)) k = map_of (snd st) k"
      using pair_step_other [of k e1 e2 clk pid st] pair_step_idle [of clk e1 e2 st pid]
      by auto
    with look inv k show ?thesis
      by simp
  next
    case True
    define old where "old = (case map_of (snd st) (pairKey_of (empId e1) (empId e2)) of
               Some p \<Rightarrow> p
             | None \<Rightarrow> \<lparr>emp1 = min (empId e1) (empId e2), emp2 = max (empId e1) (empId e2),
                        totalDays = 0, commonProjects = []\<rparr>)"
    from True pair_step_key [of clk e1 e2 st pid] look
    obtain d c where p: "p = old\<lparr>totalDays := d, commonProjects := c\<rparr>"
      unfolding old_def by auto
    have same: "min a b = min (empId e1) (empId e2) \<and> max a b = max (empId e1) (empId e2)"
      using True k by (intro pairKey_of_inject) simp
    have "emp1 old = min a b \<and> emp2 old = max a b"
    proof (cases "map_of (snd st) (pairKey_of (empId e1) (empId e2))")
      case None
      then show ?thesis
        using same by (simp add: old_def)
    next
      case (Some q)
      with inv True k have "emp1 q = min a b \<and> emp2 q = max a b"
        by blast
      with Some show ?thesis
        by (simp add: old_def)
    qed
    then show ?thesis
      by (simp add: p)
  qed
qed

lemma pair_step_keeps_key:
  assumes "map_of (snd st) k \<noteq> None"
  shows "map_of (snd (pair_step clk pid e1 e2 st)) k \<noteq> None"
proof (cases "0 < fst (calculateOverlap clk (dateFrom e1) (dateTo e1) (dateFrom e2) (dateTo e2)
                        (fst st)) \<and> k = pairKey_of (empId e1) (empId e2)")
  case False
  then have "map_of (snd (pair_step clk pid e1 e2 st)) k = map_of (snd st) k"
    using pair_step_other [of k e1 e2 clk pid st] pair_step_idle [of clk e1 e2 st pid]
    by auto
  with assms show ?thesis
    by simp
next
  case True
  with pair_step_key [of clk e1 e2 st pid] show ?thesis
    by auto
qed

lemma find_pairs_aggregate:
  assumes pair: "(r1, r2) \<in> set (pairs_of data)"
    and project: "projectId r1 = projectId r2"
    and overlap: "\<forall>n. 0 < fst (calculateOverlap clk (dateFrom r1) (dateTo r1) (dateFrom r2) (dateTo r2) n)"
  shows "\<exists>p\<in>snd ` set (find_pairs clk data).
    emp1 p = min (empId r1) (empId r2) \<and> emp2 p = max (empId r1) (empId r2)"
proof -
  define m where "m = snd (forEach_group clk (foldl group_record [] data) (0, []))"
  have keyed: "\<forall>k p a b. map_of m k = Some p \<longrightarrow> k = pairKey_of a b \<longrightarrow>
      emp1 p = min a b \<and> emp2 p = max a b"
    unfolding m_def
    by (rule forEach_group_keeps [where Q = "\<lambda>m. \<forall>k p a b. map_of m k = Some p \<longrightarrow>
        k = pairKey_of a b \<longrightarrow> emp1 p = min a b \<and> emp2 p = max a b"])
      (rule pair_step_keyed, assumption, simp)
  have members: "r1 \<in> set data"
    using pair by (auto dest: pairs_of_members)
  have group: "(projectId r1, filter (\<lambda>x. projectId x = projectId r1) data)
      \<in> set (foldl group_record [] data)"
    using members by (rule group_of_project)
  have both: "(r1, r2) \<in> set (pairs_of (filter (\<lambda>x. projectId x = projectId r1) data))"
    using pair project by (intro pairs_of_filter_member) simp_all
  have brings: "map_of (snd (pair_step clk pid r1 r2 st)) (pairKey_of (empId r1) (empId r2)) \<noteq> None"
    for pid st
    using pair_step_key [of clk r1 r2 st pid] overlap by auto
  have "map_of m (pairKey_of (empId r1) (empId r2)) \<noteq> None"
    unfolding m_def
    by (rule forEach_group_reaches [where Q = "\<lambda>m. map_of m (pairKey_of (empId r1) (empId r2)) \<noteq> None"
          and ?r1.0 = r1 and ?r2.0 = r2, OF _ _ group both])
      (rule pair_step_keeps_key, assumption, rule brings)
  then obtain p where p: "map_of m (pairKey_of (empId r1) (empId r2)) = Some p"
    by auto
  with keyed have "emp1 p = min (empId r1) (empId r2) \<and> emp2 p = max (empId r1) (empId r2)"
    by blast
  moreover have "p \<in> snd ` set m"
    using map_of_SomeD [OF p] by force
  ultimately show ?thesis
    unfolding find_pairs_def m_def by blast
qed

text \<open>
  Claim C1, as the code has it. Every aggregate of the result comes from two records
  at different positions of the input that have the same project and an overlap, and
  it holds the smaller of their two employee ids as \<open>emp1\<close> and the larger as \<open>emp2\<close>.
  So \<open>emp1\<close> is at most \<open>emp2\<close>, the two are equal only for two records of one
  employee, and \<open>emp1\<close> is less than \<open>emp2\<close> in every aggregate when no two records of
  a project have the same employee id. Conversely, two records at different positions
  of the input that have the same project and an overlap, whenever the clock is read,
  have an aggregate in the result, with the smaller of their ids as \<open>emp1\<close> and the
  larger as \<open>emp2\<close>: two such records of one employee have an aggregate of that
  employee with itself.
\<close>

theorem analyzeEmployees_pairs_ordered:
  "(\<forall>p\<in>set (allPairs (analyzeEmployees clk data)).
      \<exists>r1 r2 n. (r1, r2) \<in> set (pairs_of data) \<and> projectId r1 = projectId r2 \<and>
        0 < fst (calculateOverlap clk (dateFrom r1) (dateTo r1) (dateFrom r2) (dateTo r2) n) \<and>
        emp1 p = min (empId r1) (empId r2) \<and> emp2 p = max (empId r1) (empId r2)) \<and>
   (\<forall>p\<in>set (allPairs (analyzeEmployees clk data)). emp1 p \<le> emp2 p) \<and>
   ((\<forall>(r1, r2)\<in>set (pairs_of data). projectId r1 = projectId r2 \<longrightarrow> empId r1 \<noteq> empId r2) \<longrightarrow>
    (\<forall>p\<in>set (allPairs (analyzeEmployees clk data)). emp1 p < emp2 p)) \<and>
   (\<forall>(r1, r2)\<in>set (pairs_of data).
      projectId r1 = projectId r2 \<and>
      (\<forall>n. 0 < fst (calculateOverlap clk (dateFrom r1) (dateTo r1) (dateFrom r2) (dateTo r2) n)) \<longrightarrow>
      (\<exists>p\<in>set (allPairs (analyzeEmployees clk data)).
         emp1 p = min (empId r1) (empId r2) \<and> emp2 p = max (empId r1) (empId r2)))"
proof -
  define P where "P = (\<lambda>p :: EmployeePair. \<exists>r1 r2 n. (r1, r2) \<in> set (pairs_of data) \<and> projectId r1 = projectId r2 \<and>
        0 < fst (calculateOverlap clk (dateFrom r1) (dateTo r1) (dateFrom r2) (dateTo r2) n) \<and>
        emp1 p = min (empId r1) (empId r2) \<and> emp2 p = max (empId r1) (empId r2))"
  have fresh: "P \<lparr>emp1 = min (empId e1) (empId e2), emp2 = max (empId e1) (empId e2),
         totalDays = 0, commonProjects = []\<rparr>"
    if "(pid, employees) \<in> set (foldl group_record [] data)"
      and "(e1, e2) \<in> set (pairs_of employees)"
      and "0 < fst (calculateOverlap clk (dateFrom e1) (dateTo e1) (dateFrom e2) (dateTo e2) n)"
    for pid employees e1 e2 n
  proof -
    have "(e1, e2) \<in> set (pairs_of data) \<and> projectId e1 = pid \<and> projectId e2 = pid"
      using that(2) unfolding group_is_filter [OF that(1)] by (rule pairs_of_filter)
    with that(3) show ?thesis
      unfolding P_def
      by (intro exI [of _ e1] exI [of _ e2] exI [of _ n]) simp
  qed
  have kept: "P (p\<lparr>totalDays := d, commonProjects := c\<rparr>)" if "P p" for p d c
    using that unfolding P_def by simp
  have "\<forall>p\<in>snd ` set (snd (forEach_group clk (foldl group_record [] data) (0, []))). P p"
    by (rule forEach_group_invariant [where P = P, OF _ fresh kept]) simp_all
  then have all: "\<forall>p\<in>set (allPairs (analyzeEmployees clk data)). P p"
    by (simp add: analyzeEmployees_def Let_def sort_pairs_def find_pairs_def)
  have ordered: "emp1 p \<le> emp2 p" if "P p" for p
    using that unfolding P_def by auto
  have strict: "emp1 p < emp2 p"
    if "P p" and "\<forall>(r1, r2)\<in>set (pairs_of data). projectId r1 = projectId r2 \<longrightarrow> empId r1 \<noteq> empId r2"
    for p
    using that unfolding P_def by fastforce
  have results: "set (allPairs (analyzeEmployees clk data)) = snd ` set (find_pairs clk data)"
    by (simp add: analyzeEmployees_def Let_def sort_pairs_def)
  have present: "\<exists>p\<in>set (allPairs (analyzeEmployees clk data)).
      emp1 p = min (empId r1) (empId r2) \<and> emp2 p = max (empId r1) (empId r2)"
    if "(r1, r2) \<in> set (pairs_of data)" and "projectId r1 = projectId r2"
      and "\<forall>n. 0 < fst (calculateOverlap clk (dateFrom r1) (dateTo r1) (dateFrom r2) (dateTo r2) n)"
    for r1 r2
    unfolding results using that by (rule find_pairs_aggregate)
  have first: "\<forall>p\<in>set (allPairs (analyzeEmployees clk data)).
      \<exists>r1 r2 n. (r1, r2) \<in> set (pairs_of data) \<and> projectId r1 = projectId r2 \<and>
        0 < fst (calculateOverlap clk (dateFrom r1) (dateTo r1) (dateFrom r2) (dateTo r2) n) \<and>
        emp1 p = min (empId r1) (empId r2) \<and> emp2 p = max (empId r1) (empId r2)"
    using all unfolding P_def .
  have second: "\<forall>p\<in>set (allPairs (analyzeEmployees clk data)). emp1 p \<le> emp2 p"
    using all ordered by blast
  have third: "(\<forall>(r1, r2)\<in>set (pairs_of data). projectId r1 = projectId r2 \<longrightarrow> empId r1 \<noteq> empId r2) \<longrightarrow>
      (\<forall>p\<in>set (allPairs (analyzeEmployees clk data)). emp1 p < emp2 p)"
    using all strict by blast
  have fourth: "\<forall>(r1, r2)\<in>set (pairs_of data).
      projectId r1 = projectId r2 \<and>
      (\<forall>n. 0 < fst (calculateOverlap clk (dateFrom r1) (dateTo r1) (dateFrom r2) (dateTo r2) n)) \<longrightarrow>
      (\<exists>p\<in>set (allPairs (analyzeEmployees clk data)).
         emp1 p = min (empId r1) (empId r2) \<and> emp2 p = max (empId r1) (empId r2))"
    using present by blast
  from first second third fourth show ?thesis
    by (intro conjI)
qed

theorem analyzeEmployees_pairs_ordered_witness:
  "allPairs (analyzeEmployees (fixed_clock 1700000000000) two_colleagues) \<noteq> [] \<and>
   emp1 (hd (allPairs (analyzeEmployees (fixed_clock 1700000000000) two_colleagues))) = 143 \<and>
   emp1 (hd (allPairs (analyzeEmployees (fixed_clock 1700000000000) two_colleagues)))
     < emp2 (hd (allPairs (analyzeEmployees (fixed_clock 1700000000000) two_colleagues))) \<and>
   (218, 218) \<in> (\<lambda>p. (emp1 p, emp2 p)) ` set (allPairs (analyzeEmployees (fixed_clock 1700000000000) two_stints))"
proof -
  have ne: "allPairs (analyzeEmployees (fixed_clock 1700000000000) two_colleagues) \<noteq> []"
    and first: "emp1 (hd (allPairs (analyzeEmployees (fixed_clock 1700000000000) two_colleagues))) = 143"
    by code_simp+
  have distinct_ids: "\<forall>(r1, r2)\<in>set (pairs_of two_colleagues).
      projectId r1 = projectId r2 \<longrightarrow> empId r1 \<noteq> empId r2"
    by (simp add: two_colleagues_def)
  note colleagues_ordered =
    analyzeEmployees_pairs_ordered [of "fixed_clock 1700000000000" two_colleagues]
  from colleagues_ordered [THEN conjunct2, THEN conjunct2, THEN conjunct1] distinct_ids
  have "\<forall>p\<in>set (allPairs (analyzeEmployees (fixed_clock 1700000000000) two_colleagues)).
      emp1 p < emp2 p"
    by blast
  moreover have "hd (allPairs (analyzeEmployees (fixed_clock 1700000000000) two_colleagues))
      \<in> set (allPairs (analyzeEmployees (fixed_clock 1700000000000) two_colleagues))"
    using ne by (rule hd_in_set)
  ultimately have "emp1 (hd (allPairs (analyzeEmployees (fixed_clock 1700000000000) two_colleagues)))
      < emp2 (hd (allPairs (analyzeEmployees (fixed_clock 1700000000000) two_colleagues)))"
    by blast
  then have colleagues:
    "allPairs (analyzeEmployees (fixed_clock 1700000000000) two_colleagues) \<noteq> [] \<and>
     emp1 (hd (allPairs (analyzeEmployees (fixed_clock 1700000000000) two_colleagues))) = 143 \<and>
     emp1 (hd (allPairs (analyzeEmployees (fixed_clock 1700000000000) two_colleagues)))
       < emp2 (hd (allPairs (analyzeEmployees (fixed_clock 1700000000000) two_colleagues)))"
    using ne first by blast
  have days: "inclusive_days 1337126400000 1346803200000 = 113"
    by code_simp
  have overlap: "\<forall>n. 0 < fst (calculateOverlap (fixed_clock 1700000000000)
      1337126400000 None 1337126400000 (Some 1346803200000) n)"
    by (simp add: calculateOverlap_value fixed_clock_def Let_def days)
  note stints_ordered =
    analyzeEmployees_pairs_ordered [of "fixed_clock 1700000000000" two_stints]
  have stints: "\<forall>(r1, r2)\<in>set (pairs_of two_stints).
      projectId r1 = projectId r2 \<and>
      (\<forall>n. 0 < fst (calculateOverlap (fixed_clock 1700000000000)
         (dateFrom r1) (dateTo r1) (dateFrom r2) (dateTo r2) n))"
    using overlap by (simp add: two_stints_def)
  from stints_ordered [THEN conjunct2, THEN conjunct2, THEN conjunct2] stints
  have "\<forall>(r1, r2)\<in>set (pairs_of two_stints).
      \<exists>p\<in>set (allPairs (analyzeEmployees (fixed_clock 1700000000000) two_stints)).
        emp1 p = min (empId r1) (empId r2) \<and> emp2 p = max (empId r1) (empId r2)"
    by blast
  then have "\<exists>p\<in>set (allPairs (analyzeEmployees (fixed_clock 1700000000000) two_stints)).
      emp1 p = 218 \<and> emp2 p = 218"
    by (simp add: two_stints_def)
  then have "(218, 218) \<in> (\<lambda>p. (emp1 p, emp2 p)) ` set (allPairs (analyzeEmployees (fixed_clock 1700000000000) two_stints))"
    by force
  with colleagues show ?thesis
    by blast
qed

text \<open>Claim C1, as stated, fails on the sample table of the program itself: its second
  and third rows are two assignments of employee 218 to project 10 that overlap, and
  the result holds an aggregate of 218 with 218.\<close>

theorem analyzeEmployees_pairs_ordered_counterexample:
  "map (\<lambda>p. (emp1 p, emp2 p, totalDays p))
     (allPairs (analyze_rows iso_host (fixed_clock 1700000000000)
        [SAMPLE_CSV ! 1, SAMPLE_CSV ! 2])) =
   [(218, 218, 113)]"
  by code_simp

section \<open>One captured moment\<close>












text \<open>
  Claim C4, as stated, fails. With a clock that advances between its reads, one run on
  two ongoing assignments reads the clock four times; the overlap is counted up to the
  first read, 101 days, and the detail interval ends at the third read, one
  millisecond into the next day. No single moment gives this result: the moment would
  have to be the end of the detail interval, for which the overlap is 102 days.
\<close>

lemma ticking_result:
  "allPairs (analyzeEmployees ticking_clock two_ongoing) =
     [\<lparr>emp1 = 1, emp2 = 2, totalDays = 101,
       commonProjects = [\<lparr>cp_projectId = 10, overlapDays = 101,
                           cp_dateFrom = 0, cp_dateTo = 8640000001\<rparr>]\<rparr>]"
  by code_simp





section \<open>The days of an overlap\<close>

lemma or_now_value:
  "fst (or_now clk e n) = (case e of Some t \<Rightarrow> t | None \<Rightarrow> clk n)"
  "snd (or_now clk e n) = (if e = None then Suc n else n)"
  by (cases e; simp add: or_now_def)+

text \<open>
  Claim C5, as the code has it. For two records of a group, with the effective end of a
  record its end date or, when that is \<open>null\<close>, the clock read made for it in
  \<open>calculateOverlap\<close>, the overlap runs from the later start to the earlier effective
  end, both time values in milliseconds. If that start is at or before that end, the
  overlap is the ceiling of their distance in days plus one as the numbers of the
  program compute it; for a distance of at most \<open>2 ^ 53\<close> milliseconds this is the
  exact ceiling plus one, so at least one day, and it is exactly one day when the two
  time values coincide. If the start is after the end, the overlap is 0 and the pair
  leaves the map of aggregates as it was: no detail entry, no aggregate. A pair with an
  overlap adds its days to its aggregate and appends one detail entry with these days,
  the later start, and the earlier of the two ends with every \<open>null\<close> end read from
  the clock once more.
\<close>

theorem overlap_inclusive_days:
  "let eff1 = (case dateTo ra of Some t \<Rightarrow> t | None \<Rightarrow> clk n);
       eff2 = (case dateTo rb of Some t \<Rightarrow> t
               | None \<Rightarrow> clk (if dateTo ra = None then Suc n else n));
       s = max (dateFrom ra) (dateFrom rb);
       e = min eff1 eff2;
       overlap = fst (calculateOverlap clk (dateFrom ra) (dateTo ra) (dateFrom rb) (dateTo rb) n);
       n1 = n + (if dateTo ra = None then 1 else 0) + (if dateTo rb = None then 1 else 0);
       end1 = (case dateTo ra of Some t \<Rightarrow> t | None \<Rightarrow> clk n1);
       end2 = (case dateTo rb of Some t \<Rightarrow> t
               | None \<Rightarrow> clk (if dateTo ra = None then Suc n1 else n1));
       key = pairKey_of (empId ra) (empId rb);
       old = (case map_of pairMap key of
                Some p \<Rightarrow> p
              | None \<Rightarrow> \<lparr>emp1 = min (empId ra) (empId rb), emp2 = max (empId ra) (empId rb),
                         totalDays = 0, commonProjects = []\<rparr>)
   in (s \<le> e \<longrightarrow>
         overlap = double_int (\<lceil>double_quotient (double_int (e - s)) 86400000\<rceil> + 1)) \<and>
      (s \<le> e \<and> e - s \<le> 2 ^ 53 \<longrightarrow>
         overlap = \<lceil>real_of_int (e - s) / 86400000\<rceil> + 1 \<and> 1 \<le> overlap) \<and>
      (s = e \<longrightarrow> overlap = 1) \<and>
      (e < s \<longrightarrow> overlap = 0 \<and> snd (pair_step clk pid ra rb (n, pairMap)) = pairMap) \<and>
      (0 < overlap \<longrightarrow>
         snd (pair_step clk pid ra rb (n, pairMap)) =
           AList.update key
             (old\<lparr>totalDays := totalDays old + overlap,
                  commonProjects := commonProjects old @
                    [\<lparr>cp_projectId = pid, overlapDays = overlap,
                      cp_dateFrom = s, cp_dateTo = min end1 end2\<rparr>]\<rparr>) pairMap)"
proof -
  define eff1 where "eff1 = (case dateTo ra of Some t \<Rightarrow> t | None \<Rightarrow> clk n)"
  define eff2 where "eff2 = (case dateTo rb of Some t \<Rightarrow> t
               | None \<Rightarrow> clk (if dateTo ra = None then Suc n else n))"
  define s where "s = max (dateFrom ra) (dateFrom rb)"
  define e where "e = min eff1 eff2"
  define overlap where
    "overlap = fst (calculateOverlap clk (dateFrom ra) (dateTo ra) (dateFrom rb) (dateTo rb) n)"
  define n1 where
    "n1 = n + (if dateTo ra = None then 1 else 0) + (if dateTo rb = None then 1 else 0)"
  define end1 where "end1 = (case dateTo ra of Some t \<Rightarrow> t | None \<Rightarrow> clk n1)"
  define end2 where "end2 = (case dateTo rb of Some t \<Rightarrow> t
               | None \<Rightarrow> clk (if dateTo ra = None then Suc n1 else n1))"
  define key where "key = pairKey_of (empId ra) (empId rb)"
  define old where "old = (case map_of pairMap key of
                Some p \<Rightarrow> p
              | None \<Rightarrow> \<lparr>emp1 = min (empId ra) (empId rb), emp2 = max (empId ra) (empId rb),
                         totalDays = 0, commonProjects = []\<rparr>)"
  have val: "overlap = (if s \<le> e then inclusive_days s e else 0)"
    unfolding overlap_def calculateOverlap_value
    by (simp add: Let_def eff1_def eff2_def s_def e_def)
  have doubles: "overlap = double_int (\<lceil>double_quotient (double_int (e - s)) 86400000\<rceil> + 1)"
    if "s \<le> e"
    using that val by (simp add: inclusive_days_def)
  have exact: "overlap = \<lceil>real_of_int (e - s) / 86400000\<rceil> + 1 \<and> 1 \<le> overlap"
    if "s \<le> e \<and> e - s \<le> 2 ^ 53"
  proof -
    have "overlap = \<lceil>real_of_int (e - s) / 86400000\<rceil> + 1"
      using that val by (simp add: inclusive_days_exact)
    moreover have "0 \<le> real_of_int (e - s) / 86400000"
      using that by simp
    then have "0 \<le> \<lceil>real_of_int (e - s) / 86400000\<rceil>"
      by linarith
    ultimately show ?thesis
      by simp
  qed
  have same: "overlap = 1" if "s = e"
    using that val by (simp add: inclusive_days_exact)
  have none: "overlap = 0 \<and> snd (pair_step clk pid ra rb (n, pairMap)) = pairMap" if "e < s"
  proof -
    have "overlap = 0"
      using that val by simp
    then show ?thesis
      using pair_step_no_overlap [where clk = clk and st = "(n, pairMap)" and pid = pid]
      by (simp add: overlap_def)
  qed
  have entry: "snd (pair_step clk pid ra rb (n, pairMap)) =
      AList.update key
        (old\<lparr>totalDays := totalDays old + overlap,
             commonProjects := commonProjects old @
               [\<lparr>cp_projectId = pid, overlapDays = overlap,
                 cp_dateFrom = s, cp_dateTo = min end1 end2\<rparr>]\<rparr>) pairMap"
    if "0 < overlap"
    using that unfolding pair_step_map
    by (simp add: Let_def overlap_def [symmetric] calculateOverlap_reads or_now_value
        n1_def [symmetric] end1_def end2_def key_def old_def s_def)
  from doubles exact same none entry show ?thesis
    unfolding Let_def eff1_def [symmetric] eff2_def [symmetric] s_def [symmetric]
      e_def [symmetric] overlap_def [symmetric] n1_def [symmetric] end1_def [symmetric]
      end2_def [symmetric] key_def [symmetric] old_def [symmetric]
    by blast
qed

theorem overlap_inclusive_days_witness:
  "fst (calculateOverlap (fixed_clock 1700000000000) 1383264000000 (Some 1388880000000)
      1346803200000 (Some 1383264000000) 0) = 1 \<and>
   fst (calculateOverlap (fixed_clock 1700000000000) 1337126400000 None
      1346803200000 (Some 1383264000000) 0) = 423 \<and>
   fst (calculateOverlap (fixed_clock 1700000000000) 1383264000000 (Some 1388880000000)
      1415491200000 (Some 1420416000000) 0) = 0 \<and>
   snd (pair_step (fixed_clock 1700000000000) 12
      \<lparr>empId = 143, projectId = 12, dateFrom = 1383264000000, dateTo = Some 1388880000000\<rparr>
      \<lparr>empId = 218, projectId = 12, dateFrom = 1415491200000, dateTo = Some 1420416000000\<rparr>
      (0, [])) = [] \<and>
   snd (pair_step (fixed_clock 1700000000000) 11
      \<lparr>empId = 218, projectId = 11, dateFrom = 1388880000000, dateTo = Some 1415491200000\<rparr>
      \<lparr>empId = 143, projectId = 11, dateFrom = 1388880000000, dateTo = Some 1415491200000\<rparr>
      (0, [])) =
     [(pairKey_of 218 143,
       \<lparr>emp1 = 143, emp2 = 218, totalDays = 309,
        commonProjects = [\<lparr>cp_projectId = 11, overlapDays = 309,
                            cp_dateFrom = 1388880000000, cp_dateTo = 1415491200000\<rparr>]\<rparr>)]"
proof -
  note shared_day = overlap_inclusive_days [where
      ra = "\<lparr>empId = 143, projectId = 12, dateFrom = 1383264000000, dateTo = Some 1388880000000\<rparr>"
      and rb = "\<lparr>empId = 143, projectId = 10, dateFrom = 1346803200000, dateTo = Some 1383264000000\<rparr>"
      and clk = "fixed_clock 1700000000000" and n = 0 and pid = 12 and pairMap = "[]",
      unfolded Let_def]
  note ongoing = overlap_inclusive_days [where
      ra = "\<lparr>empId = 218, projectId = 10, dateFrom = 1337126400000, dateTo = None\<rparr>"
      and rb = "\<lparr>empId = 143, projectId = 10, dateFrom = 1346803200000, dateTo = Some 1383264000000\<rparr>"
      and clk = "fixed_clock 1700000000000" and n = 0 and pid = 10 and pairMap = "[]",
      unfolded Let_def]
  note disjoint = overlap_inclusive_days [where
      ra = "\<lparr>empId = 143, projectId = 12, dateFrom = 1383264000000, dateTo = Some 1388880000000\<rparr>"
      and rb = "\<lparr>empId = 218, projectId = 12, dateFrom = 1415491200000, dateTo = Some 1420416000000\<rparr>"
      and clk = "fixed_clock 1700000000000" and n = 0 and pid = 12 and pairMap = "[]",
      unfolded Let_def]
  note together = overlap_inclusive_days [where
      ra = "\<lparr>empId = 218, projectId = 11, dateFrom = 1388880000000, dateTo = Some 1415491200000\<rparr>"
      and rb = "\<lparr>empId = 143, projectId = 11, dateFrom = 1388880000000, dateTo = Some 1415491200000\<rparr>"
      and clk = "fixed_clock 1700000000000" and n = 0 and pid = 11 and pairMap = "[]",
      unfolded Let_def]
  have one:
    "fst (calculateOverlap (fixed_clock 1700000000000) 1383264000000 (Some 1388880000000)
      1346803200000 (Some 1383264000000) 0) = 1"
    using shared_day [THEN conjunct2, THEN conjunct2, THEN conjunct1]
    by simp
  have many:
    "fst (calculateOverlap (fixed_clock 1700000000000) 1337126400000 None
      1346803200000 (Some 1383264000000) 0) = 423"
    using ongoing [THEN conjunct2, THEN conjunct1]
    by (simp add: fixed_clock_def)
  have apart:
    "fst (calculateOverlap (fixed_clock 1700000000000) 1383264000000 (Some 1388880000000)
      1415491200000 (Some 1420416000000) 0) = 0 \<and>
     snd (pair_step (fixed_clock 1700000000000) 12
      \<lparr>empId = 143, projectId = 12, dateFrom = 1383264000000, dateTo = Some 1388880000000\<rparr>
      \<lparr>empId = 218, projectId = 12, dateFrom = 1415491200000, dateTo = Some 1420416000000\<rparr>
      (0, [])) = []"
    using disjoint [THEN conjunct2, THEN conjunct2, THEN conjunct2, THEN conjunct1]
    by simp
  have days:
    "fst (calculateOverlap (fixed_clock 1700000000000) 1388880000000 (Some 1415491200000)
      1388880000000 (Some 1415491200000) 0) = 309"
    using together [THEN conjunct2, THEN conjunct1]
    by simp
  have entry:
    "snd (pair_step (fixed_clock 1700000000000) 11
      \<lparr>empId = 218, projectId = 11, dateFrom = 1388880000000, dateTo = Some 1415491200000\<rparr>
      \<lparr>empId = 143, projectId = 11, dateFrom = 1388880000000, dateTo = Some 1415491200000\<rparr>
      (0, [])) =
     [(pairKey_of 218 143,
       \<lparr>emp1 = 143, emp2 = 218, totalDays = 309,
        commonProjects = [\<lparr>cp_projectId = 11, overlapDays = 309,
                            cp_dateFrom = 1388880000000, cp_dateTo = 1415491200000\<rparr>]\<rparr>)]"
    using together [THEN conjunct2, THEN conjunct2, THEN conjunct2, THEN conjunct2]
    by (simp add: days)
  from one many apart entry show ?thesis
    by blast
qed

text \<open>
  Claim C5 as the specification words it does not hold: the code departs from it in
  three ways. The days are computed in the numbers of the program: for the overlap from
  the earliest date there is to 2956411699200001, a distance of 134217728 days and one
  millisecond, the quotient rounds to 134217728 and the overlap is 134217729, where the
  ceiling of the distance in days plus one is 134217730. The interval is one of time
  values, not of calendar days: on a host five hours west of Greenwich the rows
  \<open>2013-11-01\<close> to \<open>2014-01-05\<close> and \<open>20120905\<close> to \<open>20131101\<close>, which share exactly
  the boundary day, overlap by 2 days, for the first is read as midnight at Greenwich
  and the second as midnight on the host. And the interval of a detail entry is not the
  one its days are computed from: with a clock that advances between its reads, the
  entry of two ongoing records shows the interval from 0 to 8640000001 with 101 days,
  where the ceiling of that distance in days plus one is 102.
\<close>

theorem overlap_inclusive_days_counterexample:
  "fst (calculateOverlap (fixed_clock 0) (- 8640000000000000) (Some 2956411699200001)
      (- 8640000000000000) (Some 2956411699200001) 0) = 134217729 \<and>
   \<lceil>real_of_int (2956411699200001 - (- 8640000000000000)) / 86400000\<rceil> + 1 = (134217730 :: int) \<and>
   map (\<lambda>p. (emp1 p, emp2 p, totalDays p))
     (allPairs (analyze_rows west_host (fixed_clock 1700000000000)
        [csv_row ''143'' ''12'' ''2013-11-01'' ''2014-01-05'',
         csv_row ''218'' ''12'' ''20120905'' ''20131101''])) = [(143, 218, 2)] \<and>
   map (\<lambda>p. (totalDays p, map (\<lambda>c. (overlapDays c, cp_dateFrom c, cp_dateTo c)) (commonProjects p)))
     (allPairs (analyzeEmployees ticking_clock two_ongoing)) = [(101, [(101, 0, 8640000001)])] \<and>
   \<lceil>real_of_int (8640000001 - 0) / 86400000\<rceil> + 1 = (102 :: int)"
proof -
  have doubles:
    "fst (calculateOverlap (fixed_clock 0) (- 8640000000000000) (Some 2956411699200001)
      (- 8640000000000000) (Some 2956411699200001) 0) = 134217729"
    by code_simp
  have exact:
    "\<lceil>real_of_int (2956411699200001 - (- 8640000000000000)) / 86400000\<rceil> + 1 = (134217730 :: int)"
    by (simp add: ceiling_eq_iff)
  have zones:
    "map (\<lambda>p. (emp1 p, emp2 p, totalDays p))
      (allPairs (analyze_rows west_host (fixed_clock 1700000000000)
        [csv_row ''143'' ''12'' ''2013-11-01'' ''2014-01-05'',
         csv_row ''218'' ''12'' ''20120905'' ''20131101''])) = [(143, 218, 2)]"
    by code_simp
  have detail:
    "map (\<lambda>p. (totalDays p, map (\<lambda>c. (overlapDays c, cp_dateFrom c, cp_dateTo c)) (commonProjects p)))
      (allPairs (analyzeEmployees ticking_clock two_ongoing)) = [(101, [(101, 0, 8640000001)])]"
    by (simp add: ticking_result)
  have formula: "\<lceil>real_of_int (8640000001 - 0) / 86400000\<rceil> + 1 = (102 :: int)"
    by (simp add: ceiling_eq_iff)
  from doubles exact zones detail formula show ?thesis
    by blast
qed
section \<open>The rows of the table\<close>

lemma parse_row_cases:
  "parse_row rt index row st =
     (if rejected rt row then (fst st, snd st @ [row_label index @ reason row])
      else (fst st @ [\<lparr>empId = the (row_empId row), projectId = the (row_projectId row),
                       dateFrom = the (parseFlexibleDate rt (row_dateFrom row)),
                       dateTo = parseFlexibleDate rt (row_dateTo row)\<rparr>], snd st))"
proof (cases "row_empId row")
  case None
  then show ?thesis
    by (simp add: parse_row_def rejected_def reason_def row_empId_def)
next
  case e: (Some e)
  show ?thesis
  proof (cases "row_projectId row")
    case None
    with e show ?thesis
      by (simp add: parse_row_def rejected_def reason_def row_empId_def row_projectId_def)
  next
    case p: (Some p)
    show ?thesis
    proof (cases "parseFlexibleDate rt (row_dateFrom row)")
      case None
      with e p show ?thesis
        by (simp add: parse_row_def rejected_def reason_def row_empId_def row_projectId_def
            row_dateFrom_def)
    next
      case (Some d)
      with e p show ?thesis
        by (simp add: parse_row_def rejected_def row_empId_def row_projectId_def
            row_dateFrom_def row_dateTo_def)
    qed
  qed
qed

lemma forEach_row_errors:
  "snd (forEach_row rt index rows st) =
     snd st @ map (\<lambda>(i, row). row_label i @ reason row)
                (filter (\<lambda>(i, row). rejected rt row) (enumerate index rows))"
proof (induction rows arbitrary: index st)
  case Nil
  show ?case by simp
next
  case (Cons row rows)
  have "snd (forEach_row rt index (row # rows) st) =
      snd (forEach_row rt (Suc index) rows (parse_row rt index row st))"
    by (simp only: forEach_row.simps)
  also have "\<dots> = snd (parse_row rt index row st) @
      map (\<lambda>(i, row). row_label i @ reason row)
        (filter (\<lambda>(i, row). rejected rt row) (enumerate (Suc index) rows))"
    by (rule Cons.IH)
  also have "\<dots> = snd st @ map (\<lambda>(i, row). row_label i @ reason row)
      (filter (\<lambda>(i, row). rejected rt row) (enumerate index (row # rows)))"
    by (simp add: parse_row_cases)
  finally show ?case .
qed

lemma forEach_row_records:
  "length (fst (forEach_row rt index rows st)) =
     length (fst st) + length (filter (\<lambda>row. \<not> rejected rt row) rows)"
proof (induction rows arbitrary: index st)
  case Nil
  show ?case by simp
next
  case (Cons row rows)
  have "length (fst (forEach_row rt index (row # rows) st)) =
      length (fst (forEach_row rt (Suc index) rows (parse_row rt index row st)))"
    by (simp only: forEach_row.simps)
  also have "\<dots> = length (fst (parse_row rt index row st)) +
      length (filter (\<lambda>row. \<not> rejected rt row) rows)"
    by (rule Cons.IH)
  also have "\<dots> = length (fst st) + length (filter (\<lambda>row. \<not> rejected rt row) (row # rows))"
    by (simp add: parse_row_cases)
  finally show ?case .
qed

text \<open>
  Claim C8. A row whose employee id and project id are integers and whose start date
  is a date is never rejected for its end date: the record is appended with the end
  date that \<open>parseFlexibleDate\<close> gives, the list of errors is unchanged, and when the
  end-date text gives no date (the \<open>null\<close> that stands both for an absent date and for
  a text that cannot be parsed) the record has a \<open>null\<close> end date.
\<close>

theorem end_date_never_rejects:
  assumes "row_empId row = Some e" and "row_projectId row = Some p"
    and "parseFlexibleDate rt (row_dateFrom row) = Some d"
  shows "parse_row rt index row (records, errs) =
           (records @ [\<lparr>empId = e, projectId = p, dateFrom = d,
                        dateTo = parseFlexibleDate rt (row_dateTo row)\<rparr>], errs) \<and>
         (parseFlexibleDate rt (row_dateTo row) = None \<longrightarrow>
            parse_row rt index row (records, errs) =
              (records @ [\<lparr>empId = e, projectId = p, dateFrom = d, dateTo = None\<rparr>], errs))"
  using assms by (simp add: parse_row_cases rejected_def)

theorem end_date_never_rejects_witness:
  "parse_row iso_host 0 (csv_row ''143'' ''12'' ''2013-11-01'' ''not-a-date'') ([], []) =
     ([\<lparr>empId = 143, projectId = 12, dateFrom = 1383264000000, dateTo = None\<rparr>], []) \<and>
   parse_row iso_host 1 (csv_row ''218'' ''10'' ''2012-05-16'' ''NULL'') ([], []) =
     ([\<lparr>empId = 218, projectId = 10, dateFrom = 1337126400000, dateTo = None\<rparr>], [])"
proof -
  have a: "row_empId (csv_row ''143'' ''12'' ''2013-11-01'' ''not-a-date'') = Some 143"
    "row_projectId (csv_row ''143'' ''12'' ''2013-11-01'' ''not-a-date'') = Some 12"
    "parseFlexibleDate iso_host (row_dateFrom (csv_row ''143'' ''12'' ''2013-11-01'' ''not-a-date'')) =
       Some 1383264000000"
    by code_simp+
  have a_end: "parseFlexibleDate iso_host
      (row_dateTo (csv_row ''143'' ''12'' ''2013-11-01'' ''not-a-date'')) = None"
    by code_simp
  have b: "row_empId (csv_row ''218'' ''10'' ''2012-05-16'' ''NULL'') = Some 218"
    "row_projectId (csv_row ''218'' ''10'' ''2012-05-16'' ''NULL'') = Some 10"
    "parseFlexibleDate iso_host (row_dateFrom (csv_row ''218'' ''10'' ''2012-05-16'' ''NULL'')) =
       Some 1337126400000"
    by code_simp+
  have b_end: "parseFlexibleDate iso_host
      (row_dateTo (csv_row ''218'' ''10'' ''2012-05-16'' ''NULL'')) = None"
    by code_simp
  from end_date_never_rejects [OF a, of 0 "[]" "[]"] a_end
    end_date_never_rejects [OF b, of 1 "[]" "[]"] b_end
  show ?thesis
    by simp
qed

text \<open>
  Claim C2, as the code has it. The loop over the rows builds the list of records and
  a list of errors with one text for every rejected row, in the order of the rows:
  \<open>Row\<close>, the number of the row counted from 1, a colon and the reason. Every row gives
  either a record or an error. Of the two lists the caller receives the records only,
  and the result of the analysis is computed from them: its list of errors is empty.
\<close>

theorem parse_rows_errors:
  "snd (parse_rows rt data) =
     map (\<lambda>(i, row). ''Row '' @ string_of_nat (i + 1) @ '': '' @ reason row)
       (filter (\<lambda>(i, row). rejected rt row) (enumerate 0 data)) \<and>
   length (fst (parse_rows rt data)) = length (filter (\<lambda>row. \<not> rejected rt row) data) \<and>
   parseCSVData rt data = fst (parse_rows rt data) \<and>
   errors (analyze_rows rt clk data) = []"
  by (simp add: parse_rows_def forEach_row_errors forEach_row_records row_label_def
      parseCSVData_def analyze_rows_def analyzeEmployees_def Let_def)

theorem parse_rows_errors_witness:
  "snd (parse_rows iso_host
     [csv_row ''143'' ''12'' ''2013-11-01'' ''2014-01-05'',
      csv_row ''x28'' ''12'' ''2013-11-01'' ''NULL'',
      csv_row ''218'' ''12'' ''14 Nov'' ''NULL'']) =
   [''Row 2: Invalid employee ID or project ID'',
    ''Row 3: Invalid date format for DateFrom: '' @ [CHR 0x22] @ ''14 Nov'' @ [CHR 0x22]] \<and>
   length (fst (parse_rows iso_host
     [csv_row ''143'' ''12'' ''2013-11-01'' ''2014-01-05'',
      csv_row ''x28'' ''12'' ''2013-11-01'' ''NULL'',
      csv_row ''218'' ''12'' ''14 Nov'' ''NULL''])) = 1"
proof -
  have "map (\<lambda>(i, row). ''Row '' @ string_of_nat (i + 1) @ '': '' @ reason row)
       (filter (\<lambda>(i, row). rejected iso_host row) (enumerate 0
     [csv_row ''143'' ''12'' ''2013-11-01'' ''2014-01-05'',
      csv_row ''x28'' ''12'' ''2013-11-01'' ''NULL'',
      csv_row ''218'' ''12'' ''14 Nov'' ''NULL''])) =
     [''Row 2: Invalid employee ID or project ID'',
      ''Row 3: Invalid date format for DateFrom: '' @ [CHR 0x22] @ ''14 Nov'' @ [CHR 0x22]]"
    by code_simp
  moreover have "length (filter (\<lambda>row. \<not> rejected iso_host row)
     [csv_row ''143'' ''12'' ''2013-11-01'' ''2014-01-05'',
      csv_row ''x28'' ''12'' ''2013-11-01'' ''NULL'',
      csv_row ''218'' ''12'' ''14 Nov'' ''NULL'']) = 1"
    by code_simp
  ultimately show ?thesis
    using parse_rows_errors [of iso_host
     "[csv_row ''143'' ''12'' ''2013-11-01'' ''2014-01-05'',
      csv_row ''x28'' ''12'' ''2013-11-01'' ''NULL'',
      csv_row ''218'' ''12'' ''14 Nov'' ''NULL'']" "fixed_clock 1700000000000"]
    by simp
qed

text \<open>Claim C2, as stated, fails: a table with a row that is rejected gives a list of
  errors that is not empty, and the result of the analysis of this table has none.\<close>

theorem parse_rows_errors_counterexample:
  "snd (parse_rows iso_host
     [csv_row ''143'' ''12'' ''2013-11-01'' ''2014-01-05'',
      csv_row ''abc'' ''12'' ''2013-11-01'' ''NULL'']) =
     [''Row 2: Invalid employee ID or project ID''] \<and>
   errors (analyze_rows iso_host (fixed_clock 1700000000000)
     [csv_row ''143'' ''12'' ''2013-11-01'' ''2014-01-05'',
      csv_row ''abc'' ''12'' ''2013-11-01'' ''NULL'']) = []"
  by code_simp

end
